theory Spec2Isabelle
  imports Complex_Main "HOL-Library.AList"
begin

section \<open>Common conventions\<close>

text \<open>
  Times are milliseconds since the epoch (what \<open>Date.now()\<close> returns), as \<open>int\<close>.
  JavaScript strings are \<open>string\<close>, a \<open>char\<close> standing for a code unit below 256;
  numbers that the code only passes through
  (coordinates) are \<open>rat\<close>. A JavaScript \<open>Map\<close> is an association list in insertion
  order: \<open>Map.get\<close> is \<open>map_of\<close>, \<open>Map.set\<close> is \<open>AList.update\<close> (in place for a key
  that is present, appended otherwise) and \<open>Map.delete\<close> is \<open>AList.delete\<close>.
\<close>

type_synonym num = rat

definition is_space :: "char \<Rightarrow> bool" where
  \<comment> \<open>the white space and line terminators that \<open>String.prototype.trim\<close> strips, among the characters below 256\<close>
  "is_space c = (of_char c \<in> {9, 10, 11, 12, 13, 32, 160 :: nat})"

definition trim :: "string \<Rightarrow> string" where
  "trim s = rev (dropWhile is_space (rev (dropWhile is_space s)))"

definition lower_char :: "char \<Rightarrow> char" where
  \<comment> \<open>\<open>toLowerCase\<close> on one character below 256: A to Z, and the accented capitals\<close>
  "lower_char c =
     (let n = (of_char c :: nat) in
      if (65 \<le> n \<and> n \<le> 90) \<or> (192 \<le> n \<and> n \<le> 222 \<and> n \<noteq> 215)
      then char_of (n + 32) else c)"

definition toLowerCase :: "string \<Rightarrow> string" where
  "toLowerCase s = map lower_char s"

fun startsWith :: "string \<Rightarrow> string \<Rightarrow> bool" where
  "startsWith s [] = True"
| "startsWith [] (p # ps) = False"
| "startsWith (c # cs) (p # ps) = (c = p \<and> startsWith cs ps)"

fun str_includes :: "string \<Rightarrow> string \<Rightarrow> bool" where
  "str_includes [] sub = (sub = [])"
| "str_includes (c # cs) sub = (startsWith (c # cs) sub \<or> str_includes cs sub)"

section \<open>The geocode endpoint (src/app/api/geocode/route.ts)\<close>

subsection \<open>Process-wide state\<close>

record cache_entry =
  lat :: num
  lon :: num
  display_name :: string
  ce_timestamp :: int

record rate_entry =
  rl_count :: nat
  resetAt :: int

record gstate =
  geocodeCache :: "(string \<times> cache_entry) list"
  rateLimitMap :: "(string \<times> rate_entry) list"

definition RATE_LIMIT_WINDOW :: int where
  "RATE_LIMIT_WINDOW = 60 * 1000"

definition MAX_REQUESTS_PER_WINDOW :: nat where
  "MAX_REQUESTS_PER_WINDOW = 50"

definition CACHE_TTL :: int where
  "CACHE_TTL = 24 * 60 * 60 * 1000"

definition cleanupCache :: "int \<Rightarrow> gstate \<Rightarrow> gstate" where
  "cleanupCache now s =
     s\<lparr>geocodeCache := filter (\<lambda>(k, v). \<not> (now - ce_timestamp v > CACHE_TTL)) (geocodeCache s)\<rparr>"

subsection \<open>checkRateLimit\<close>

record rate_result =
  allowed :: bool
  retryAfter :: "int option"

definition ceil_div :: "int \<Rightarrow> int \<Rightarrow> int" where
  \<comment> \<open>\<open>Math.ceil(a / b)\<close> for integers \<open>a\<close> and \<open>b > 0\<close>\<close>
  "ceil_div a b = - ((- a) div b)"

definition checkRateLimit ::
  "int \<Rightarrow> string \<Rightarrow> (string \<times> rate_entry) list \<Rightarrow> rate_result \<times> (string \<times> rate_entry) list" where
  "checkRateLimit now ip m =
     (let key = (if ip = [] then ''default'' else ip) in
      case map_of m key of
        None \<Rightarrow>
          (\<lparr>allowed = True, retryAfter = None\<rparr>,
           AList.update key \<lparr>rl_count = 1, resetAt = now + RATE_LIMIT_WINDOW\<rparr> m)
      | Some limit \<Rightarrow>
          if now > resetAt limit then
            (\<lparr>allowed = True, retryAfter = None\<rparr>,
             AList.update key \<lparr>rl_count = 1, resetAt = now + RATE_LIMIT_WINDOW\<rparr> m)
          else if rl_count limit \<ge> MAX_REQUESTS_PER_WINDOW then
            (\<lparr>allowed = False, retryAfter = Some (ceil_div (resetAt limit - now) 1000)\<rparr>, m)
          else
            (\<lparr>allowed = True, retryAfter = None\<rparr>,
             AList.update key (limit\<lparr>rl_count := rl_count limit + 1\<rparr>) m))"

subsection \<open>The request handler\<close>

text \<open>
  \<open>geocodeWithRetry\<close> talks to the two upstream providers. The handler only looks at
  the object it resolves to, so the environment supplies that object; the handler's
  result lists the locations for which \<open>geocodeWithRetry\<close> was called.
\<close>

datatype geo_result =
  GeoSuccess num num string    \<comment> \<open>\<open>coordinates[0]\<close>, \<open>coordinates[1]\<close>, \<open>display_name\<close>\<close>
| GeoFailure "string option"   \<comment> \<open>\<open>error\<close>\<close>

record request =
  location :: "string option"          \<comment> \<open>\<open>searchParams.get("location")\<close>\<close>
  x_forwarded_for :: "string option"
  x_real_ip :: "string option"

record genv =
  t_cache :: int      \<comment> \<open>\<open>Date.now()\<close> at the cache check\<close>
  t_limit :: int      \<comment> \<open>\<open>Date.now()\<close> inside \<open>checkRateLimit\<close>\<close>
  t_store :: int      \<comment> \<open>\<open>Date.now()\<close> when the result is cached\<close>
  upstream :: geo_result

datatype body =
  ErrorBody string
| GeocodedBody string num num string bool
    \<comment> \<open>\<open>location\<close>, \<open>coordinates[0]\<close>, \<open>coordinates[1]\<close>, \<open>display_name\<close>, \<open>cached\<close>\<close>
| RateLimitBody "int option"          \<comment> \<open>\<open>retryAfter\<close>\<close>
| FailureBody string

record response =
  status :: nat
  retry_after_header :: "int option"   \<comment> \<open>the \<open>Retry-After\<close> header, when set\<close>
  body :: body

definition clientIp :: "request \<Rightarrow> string" where
  "clientIp req =
     (let xff = (case x_forwarded_for req of None \<Rightarrow> [] | Some h \<Rightarrow> takeWhile (\<lambda>c. c \<noteq> CHR '','') h) in
      if xff \<noteq> [] then xff
      else case x_real_ip req of
             None \<Rightarrow> ''unknown''
           | Some r \<Rightarrow> if r \<noteq> [] then r else ''unknown'')"

definition cacheCheck ::
  "int \<Rightarrow> string \<Rightarrow> (string \<times> cache_entry) list \<Rightarrow> cache_entry option \<times> (string \<times> cache_entry) list" where
  "cacheCheck now locationKey c =
     (case map_of c locationKey of
        None \<Rightarrow> (None, c)
      | Some cached \<Rightarrow>
          if now - ce_timestamp cached < CACHE_TTL then (Some cached, c)
          else (None, AList.delete locationKey c))"

definition cacheStore ::
  "int \<Rightarrow> string \<Rightarrow> num \<Rightarrow> num \<Rightarrow> string \<Rightarrow> (string \<times> cache_entry) list \<Rightarrow> (string \<times> cache_entry) list" where
  "cacheStore now locationKey c0 c1 dn c =
     (let c' = AList.update locationKey
                 \<lparr>lat = c1, lon = c0, display_name = dn, ce_timestamp = now\<rparr> c in
      if length c' > 1000 then
        (case c' of [] \<Rightarrow> c'
         | (firstKey, v) # rest \<Rightarrow> if firstKey \<noteq> [] then AList.delete firstKey c' else c')
      else c')"

definition bad_request :: response where
  "bad_request = \<lparr>status = 400, retry_after_header = None,
                  body = ErrorBody ''location parameter is required''\<rparr>"

definition geocode_GET :: "gstate \<Rightarrow> request \<Rightarrow> genv \<Rightarrow> response \<times> gstate \<times> string list" where
  "geocode_GET s req env =
     (case location req of
        None \<Rightarrow> (bad_request, s, [])
      | Some loc \<Rightarrow>
          if loc = [] \<or> trim loc = [] then (bad_request, s, [])
          else
            let locationKey = toLowerCase (trim loc);
                (hit, c1) = cacheCheck (t_cache env) locationKey (geocodeCache s)
            in case hit of
                 Some cached \<Rightarrow>
                   (\<lparr>status = 200, retry_after_header = None,
                     body = GeocodedBody loc (lon cached) (lat cached) (display_name cached) True\<rparr>,
                    s\<lparr>geocodeCache := c1\<rparr>, [])
               | None \<Rightarrow>
                   let (rateLimit, m1) = checkRateLimit (t_limit env) (clientIp req) (rateLimitMap s);
                       s1 = s\<lparr>geocodeCache := c1, rateLimitMap := m1\<rparr>
                   in if \<not> allowed rateLimit then
                        (\<lparr>status = 429,
                          retry_after_header =
                            Some (case retryAfter rateLimit of None \<Rightarrow> 60 | Some r \<Rightarrow> r),
                          body = RateLimitBody (retryAfter rateLimit)\<rparr>,
                         s1, [])
                      else
                        (case upstream env of
                           GeoFailure err \<Rightarrow>
                             (\<lparr>status = (if (case err of None \<Rightarrow> False | Some e \<Rightarrow> str_includes e ''not found'')
                                          then 404 else 500),
                               retry_after_header = None,
                               body = FailureBody (case err of None \<Rightarrow> ''Failed to geocode location''
                                                   | Some e \<Rightarrow> if e = [] then ''Failed to geocode location'' else e)\<rparr>,
                              s1, [loc])
                         | GeoSuccess c0 c1' dn \<Rightarrow>
                             (\<lparr>status = 200, retry_after_header = None,
                               body = GeocodedBody loc c0 c1' dn False\<rparr>,
                              s1\<lparr>geocodeCache := cacheStore (t_store env) locationKey c0 c1' dn (geocodeCache s1)\<rparr>,
                              [loc])))"

definition init_gstate :: gstate where
  "init_gstate = \<lparr>geocodeCache = [], rateLimitMap = []\<rparr>"

section \<open>The discovery endpoint (src/app/api/grok/breaking-news/route.ts)\<close>

datatype exn = Exn string   \<comment> \<open>a thrown JavaScript exception, with its message\<close>

subsection \<open>fetchRealTweets\<close>

text \<open>The timestamp of a post, as the code meets it: missing, a text together with the
  instant that \<open>new Date\<close> reads from it (\<open>None\<close> for an Invalid Date), or the ISO 8601
  text that \<open>toISOString\<close> gives for an instant.\<close>

datatype post_ts =
  NoStamp
| Stamp string "int option"
| IsoStamp int

record raw_tweet =
  rt_id :: string
  rt_text :: "string option"
  rt_author_id :: string
  rt_lang :: string
  rt_created_at :: post_ts
  like_count :: "nat option"
  reply_count :: "nat option"
  retweet_count :: "nat option"

record raw_user =
  u_id :: string
  username :: "string option"
  u_name :: "string option"
  profile_image_url :: "string option"
  u_verified :: "bool option"

record tweet =
  tw_id :: string
  tw_text :: "string option"
  author :: string
  tw_name :: string
  profile_pic :: "string option"
  verified :: bool
  tw_timestamp :: post_ts
  likes :: nat
  replies :: nat
  reposts :: nat
  url :: string

text \<open>What one call of the search API gives back, as far as the code looks at it.\<close>

datatype x_response =
  XFetchThrows                       \<comment> \<open>\<open>fetch\<close> rejects\<close>
| XNotOk nat                         \<comment> \<open>\<open>!res.ok\<close>, with \<open>res.status\<close>\<close>
| XBodyThrows                        \<comment> \<open>\<open>res.json()\<close> rejects, or the body's shape makes a later access throw\<close>
| XNoData                            \<comment> \<open>\<open>data.data\<close> is missing\<close>
| XData "raw_tweet list" "raw_user list"   \<comment> \<open>\<open>data.data\<close> and \<open>data.includes.users\<close>\<close>

definition str_or :: "string option \<Rightarrow> string \<Rightarrow> string" where
  \<comment> \<open>\<open>s || d\<close> for a string or \<open>undefined\<close>\<close>
  "str_or s d = (case s of None \<Rightarrow> d | Some v \<Rightarrow> if v = [] then d else v)"

definition nat_or0 :: "nat option \<Rightarrow> nat" where
  "nat_or0 n = (case n of None \<Rightarrow> 0 | Some v \<Rightarrow> v)"

definition toTweet :: "raw_user list \<Rightarrow> raw_tweet \<Rightarrow> tweet" where
  "toTweet users t =
     (let user = map_of (rev (map (\<lambda>u. (u_id u, u)) users)) (rt_author_id t) in
      \<lparr>tw_id = rt_id t,
       tw_text = rt_text t,
       author = CHR ''@'' # str_or (Option.bind user username) ''unknown'',
       tw_name = str_or (Option.bind user u_name) ''Unknown'',
       profile_pic = (case Option.bind user profile_image_url of None \<Rightarrow> None
                      | Some p \<Rightarrow> if p = [] then None else Some p),
       verified = (case Option.bind user u_verified of None \<Rightarrow> False | Some b \<Rightarrow> b),
       tw_timestamp = rt_created_at t,
       likes = nat_or0 (like_count t),
       replies = nat_or0 (reply_count t),
       reposts = nat_or0 (retweet_count t),
       url = ''https://x.com/'' @ (case Option.bind user username of None \<Rightarrow> ''undefined'' | Some n \<Rightarrow> n)
             @ ''/status/'' @ rt_id t\<rparr>)"

definition longText :: "tweet \<Rightarrow> bool" where
  \<comment> \<open>\<open>t.text && t.text.length > 10\<close>\<close>
  "longText t = (case tw_text t of None \<Rightarrow> False | Some x \<Rightarrow> x \<noteq> [] \<and> length x > 10)"

fun split_on :: "char \<Rightarrow> string \<Rightarrow> string list" where
  "split_on c [] = [[]]"
| "split_on c (x # xs) =
     (if x = c then [] # split_on c xs
      else case split_on c xs of [] \<Rightarrow> [[x]] | w # ws \<Rightarrow> (x # w) # ws)"

fun join_with :: "string \<Rightarrow> string list \<Rightarrow> string" where
  "join_with sep [] = []"
| "join_with sep [w] = w"
| "join_with sep (w # v # ws) = w @ sep @ join_with sep (v # ws)"

definition indexOf :: "'a list \<Rightarrow> 'a \<Rightarrow> nat" where
  "indexOf arr q = length (takeWhile (\<lambda>x. x \<noteq> q) arr)"

definition queryVariations :: "string \<Rightarrow> string option \<Rightarrow> string list" where
  "queryVariations query headline =
     (let arr = [query,
                 (case headline of None \<Rightarrow> query
                  | Some h \<Rightarrow> if h = [] then query else h @ '' '' @ query),
                 join_with '' '' (take 3 (split_on CHR '' '' query))]
      in map snd (filter (\<lambda>(i, q). indexOf arr q = i) (enumerate 0 arr)))"

fun collapse_spaces :: "string \<Rightarrow> string" where
  \<comment> \<open>\<open>.replace(/\s+/g, ' ')\<close>\<close>
  "collapse_spaces [] = []"
| "collapse_spaces [c] = (if is_space c then '' '' else [c])"
| "collapse_spaces (c # d # cs) =
     (if is_space c then (if is_space d then collapse_spaces (d # cs)
                          else CHR '' '' # collapse_spaces (d # cs))
      else c # collapse_spaces (d # cs))"

definition cleanQuery :: "string \<Rightarrow> string" where
  "cleanQuery searchQuery = collapse_spaces (trim searchQuery)"

datatype variant_result = Return "tweet list" | Continue | Break

definition tryVariant :: "x_response \<Rightarrow> exn + variant_result" where
  \<comment> \<open>the body of the \<open>try\<close> block for one query variation; \<open>Inl\<close> is a throw\<close>
  "tryVariant r =
     (case r of
        XFetchThrows \<Rightarrow> Inl (Exn ''fetch failed'')
      | XNotOk st \<Rightarrow> if st = 429 then Inr Break else Inr Continue
      | XBodyThrows \<Rightarrow> Inl (Exn ''bad body'')
      | XNoData \<Rightarrow> Inr Continue
      | XData d users \<Rightarrow>
          if d = [] then Inr Continue
          else let tweets = filter longText
                              (map (toTweet users) (filter (\<lambda>t. rt_lang t = ''en'') d))
               in if tweets \<noteq> [] then Inr (Return tweets) else Inr Continue)"

fun variantsLoop :: "(nat \<Rightarrow> string \<Rightarrow> x_response) \<Rightarrow> nat \<Rightarrow> string list \<Rightarrow> exn + tweet list" where
  "variantsLoop api i [] = Inr []"
| "variantsLoop api i (searchQuery # rest) =
     (case tryVariant (api i (cleanQuery searchQuery)) of
        Inl e \<Rightarrow> variantsLoop api (i + 1) rest          \<comment> \<open>\<open>catch (e) { ...; continue }\<close>\<close>
      | Inr (Return tweets) \<Rightarrow> Inr tweets
      | Inr Continue \<Rightarrow> variantsLoop api (i + 1) rest
      | Inr Break \<Rightarrow> Inr [])"

definition fetchRealTweets ::
  "string option \<Rightarrow> string option \<Rightarrow> (nat \<Rightarrow> string \<Rightarrow> x_response) \<Rightarrow> string \<Rightarrow> string option
     \<Rightarrow> exn + tweet list" where
  "fetchRealTweets X_BEARER_TOKEN BEARER_TOKEN api query headline =
     (let bearerToken = (case X_BEARER_TOKEN of
                           None \<Rightarrow> BEARER_TOKEN
                         | Some t \<Rightarrow> if t = [] then BEARER_TOKEN else Some t)
      in if bearerToken = None \<or> bearerToken = Some [] then Inr []
         else variantsLoop api 0 (queryVariations query headline))"


subsection \<open>Data of the discovery stream\<close>

record news_item =
  ni_id :: string
  headline :: string
  ni_location :: string
  summary :: "string option"
  category :: string
  coordinates :: "num list"
  ni_timestamp :: int                 \<comment> \<open>the instant that the ISO string names\<close>
  top_tweets :: "tweet list"

text \<open>Rows of the store, as the cache lookup returns them. The posts of a row are kept
  in the shape of the posts of a frame (the store holds their counts as text).\<close>

record db_item =
  row_id :: string
  row_headline :: string
  row_location :: string
  row_summary :: "string option"
  row_category :: string
  row_coordinates :: "string + num list"
      \<comment> \<open>\<open>JSON.parse(item.coordinates)\<close>; \<open>Inl\<close> with \<open>String(e)\<close> when it throws \<open>e\<close>\<close>
  row_timestamp :: int
  row_tweets :: "tweet list"

record query_row =
  q_id :: string
  q_normalizedKey :: string
  q_timestamp :: int
  q_items :: "db_item list"

datatype status_msg =
  Analyzing                       \<comment> \<open>"Analyzing query scope..."\<close>
| FoundCached string              \<comment> \<open>"Found cached results for <key>"\<close>
| Scanning string nat nat         \<comment> \<open>"Scanning <scope> scope for updates (Quality target: <t>, Fetching: <f>)..."\<close>
| ScanningMore nat nat            \<comment> \<open>"Scanning for more... (<fetchedCount>/<fetchCount> found)"\<close>
| Found string                    \<comment> \<open>"Found: <headline>"\<close>
| FetchingTweets string           \<comment> \<open>"Fetching real tweets from X API: ..."\<close>
| FoundTweets nat                 \<comment> \<open>"Found <n> real tweets from X API"\<close>
| NoTweets string                 \<comment> \<open>"No tweets found on X API for: <headline>"\<close>

datatype frame =
  Connected
| Status status_msg
| News news_item
| ErrorFrame string
| Complete

datatype find_result = FindThrows | FindNone | FindSome string

text \<open>
  What the handler does that can be seen from outside, in the order in which it does it:
  frames handed to the stream controller and calls to the store.
\<close>

datatype action =
  Enqueue frame
| CacheLookup "query_row option"              \<comment> \<open>\<open>searchQuery.findFirst\<close> with its result\<close>
| DbCreate news_item bool                     \<comment> \<open>\<open>newsItem.create\<close>; the flag says whether it resolved\<close>
| DbFindFirst string string find_result       \<comment> \<open>\<open>newsItem.findFirst\<close> by headline and location\<close>
| QueryFindFirst string find_result           \<comment> \<open>\<open>searchQuery.findFirst\<close> by key\<close>
| QueryUpdate string "string list" bool bool  \<comment> \<open>id, connected ids, timestamp bumped, resolved\<close>
| QueryCreate string string "string list" bool  \<comment> \<open>originalQuery, normalizedKey, connected ids, resolved\<close>

datatype cand_ts = NoTimestamp | InvalidDate | DateAt int

record candidate =
  c_headline :: "string option"
  c_location :: "string option"
  c_summary :: "string option"
  c_category :: "string option"
  c_timestamp :: cand_ts
  c_search_query :: "string option"

text \<open>The answers of the outside world while one tool call is processed.\<close>

record cand_env =
  parsed :: "candidate option"        \<comment> \<open>\<open>JSON.parse(jsonArgs)\<close>; \<open>None\<close> when it throws\<close>
  geocoded :: "num list option"       \<comment> \<open>what \<open>geocodeLocation\<close> resolves to\<close>
  x_api :: "nat \<Rightarrow> string \<Rightarrow> x_response"
  uuid :: string                      \<comment> \<open>\<open>crypto.randomUUID()\<close>\<close>
  now :: int                          \<comment> \<open>\<open>new Date()\<close> when the item is built\<close>
  create_ok :: bool                   \<comment> \<open>\<open>newsItem.create\<close> resolves\<close>
  find_existing :: find_result        \<comment> \<open>\<open>newsItem.findFirst\<close> in the recovery path\<close>

datatype grok_response =
  GrokThrows                          \<comment> \<open>\<open>fetch\<close> rejects, or \<open>!response.ok\<close>\<close>
| NoReader                            \<comment> \<open>\<open>response.body?.getReader()\<close> is undefined\<close>
| ReadThrows                          \<comment> \<open>\<open>reader.read()\<close> rejects\<close>
| ToolCalls "cand_env list"           \<comment> \<open>the entries of \<open>toolCallsMap\<close>, in order\<close>

record round_env =
  elapsed :: int                      \<comment> \<open>\<open>Date.now() - processStartTime\<close> at the loop test\<close>
  grok :: grok_response
  existingQ :: find_result            \<comment> \<open>\<open>searchQuery.findFirst({where: {normalizedKey}})\<close>\<close>
  link_ok :: bool                     \<comment> \<open>\<open>searchQuery.update\<close> / \<open>create\<close> resolves\<close>

record denv =
  abort_after :: "nat option"         \<comment> \<open>the abort listener runs after that many \<open>safeEnqueue\<close> calls\<close>
  X_BEARER_TOKEN :: "string option"
  BEARER_TOKEN :: "string option"
  normalize_response :: "(string option \<times> string option) option"
      \<comment> \<open>\<open>json.key\<close> and \<open>json.scope\<close> of the normaliser's answer; \<open>None\<close> when anything in \<open>normalizeQuery\<close> throws\<close>
  now_six :: int                      \<comment> \<open>\<open>Date.now()\<close> for \<open>sixHoursAgo\<close>\<close>
  now_seven :: int                    \<comment> \<open>\<open>Date.now()\<close> for \<open>sevenDaysAgo\<close>\<close>
  db_searchQuery :: "string + query_row list"
      \<comment> \<open>the table; \<open>Inl\<close> with \<open>String(e)\<close> when the lookup rejects with \<open>e\<close>\<close>
  replay_clock :: "nat \<Rightarrow> nat \<Rightarrow> int"
      \<comment> \<open>\<open>new Date()\<close> inside \<open>toISOStringSafe\<close>, by cached item and post\<close>
  rounds :: "nat \<Rightarrow> round_env"     \<comment> \<open>by the value of \<open>attempts\<close> at the loop test\<close>

text \<open>
  The mutable variables of \<open>start\<close>. The flag \<open>isActive\<close> is cleared by the abort
  listener, which can only run while the handler waits for the outside world, that is
  between two calls of \<open>safeEnqueue\<close>; the environment says after how many calls it
  runs (\<open>abort_after\<close>), and the state counts the calls. From then on \<open>safeEnqueue\<close>
  drops its frame. The calls to the store go on as before.
\<close>

record dstate =
  enq_calls :: nat
  existingHeadlines :: "string list"
  fetchedCount :: nat
  trace :: "action list"

definition init_dstate :: dstate where
  "init_dstate = \<lparr>enq_calls = 0, existingHeadlines = [], fetchedCount = 0, trace = []\<rparr>"

definition isActive :: "denv \<Rightarrow> dstate \<Rightarrow> bool" where
  "isActive env st = (case abort_after env of None \<Rightarrow> True | Some k \<Rightarrow> enq_calls st < k)"

definition safeEnqueue :: "denv \<Rightarrow> frame \<Rightarrow> dstate \<Rightarrow> dstate" where
  "safeEnqueue env msg st =
     st\<lparr>enq_calls := enq_calls st + 1,
        trace := (if isActive env st then trace st @ [Enqueue msg] else trace st)\<rparr>"

definition record_db :: "action list \<Rightarrow> dstate \<Rightarrow> dstate" where
  "record_db as st = st\<lparr>trace := trace st @ as\<rparr>"

definition frames :: "action list \<Rightarrow> frame list" where
  "frames as = concat (map (\<lambda>a. case a of Enqueue f \<Rightarrow> [f] | _ \<Rightarrow> []) as)"

subsection \<open>normalizeQuery and the cache lookup\<close>

definition normalizeQuery :: "string \<Rightarrow> (string option \<times> string option) option \<Rightarrow> string \<times> string" where
  "normalizeQuery query resp =
     (case resp of
        None \<Rightarrow> (if query = [] then ''Global News'' else query, ''global'')
      | Some (key, scope) \<Rightarrow> (str_or key query, str_or scope ''global''))"

fun most_recent :: "query_row list \<Rightarrow> query_row option" where
  \<comment> \<open>\<open>orderBy: { timestamp: "desc" }\<close> and take the first\<close>
  "most_recent [] = None"
| "most_recent (q # qs) =
     (case most_recent qs of
        None \<Rightarrow> Some q
      | Some r \<Rightarrow> if q_timestamp r > q_timestamp q then Some r else Some q)"

definition findCached :: "int \<Rightarrow> int \<Rightarrow> string \<Rightarrow> query_row list \<Rightarrow> query_row option" where
  "findCached sixHoursAgo sevenDaysAgo normalizedKey table =
     (case most_recent (filter (\<lambda>q. q_normalizedKey q = normalizedKey \<and> q_timestamp q > sixHoursAgo) table) of
        None \<Rightarrow> None
      | Some q \<Rightarrow> Some (q\<lparr>q_items := filter (\<lambda>i. row_timestamp i > sevenDaysAgo) (q_items q)\<rparr>))"

definition cacheLookup :: "int \<Rightarrow> int \<Rightarrow> string \<Rightarrow> query_row list \<Rightarrow> query_row option" where
  "cacheLookup nowSix nowSeven normalizedKey table =
     (let sixHoursAgo = nowSix - 6 * 60 * 60 * 1000;
          sevenDaysAgo = nowSeven - 7 * 24 * 60 * 60 * 1000
      in findCached sixHoursAgo sevenDaysAgo normalizedKey table)"


subsection \<open>The stream handler\<close>

definition toISOStringSafe :: "int \<Rightarrow> post_ts \<Rightarrow> post_ts" where
  \<comment> \<open>on the timestamp of a stored post; the first argument is the clock\<close>
  "toISOStringSafe clock ts =
     (case ts of
        NoStamp \<Rightarrow> IsoStamp clock
      | IsoStamp i \<Rightarrow> IsoStamp i
      | Stamp s p \<Rightarrow>
          if s = [] then IsoStamp clock
          else if str_includes s ''T'' \<and> str_includes s ''Z'' then Stamp s p
          else (case p of Some i \<Rightarrow> IsoStamp i | None \<Rightarrow> IsoStamp clock))"

definition cachedNewsItem :: "(nat \<Rightarrow> int) \<Rightarrow> db_item \<Rightarrow> num list \<Rightarrow> news_item" where
  "cachedNewsItem clock item coords =
     \<lparr>ni_id = row_id item, headline = row_headline item, ni_location = row_location item,
      summary = row_summary item, category = row_category item, coordinates = coords,
      ni_timestamp = row_timestamp item,
      top_tweets = map (\<lambda>(j, t). t\<lparr>tw_name := (if tw_name t = [] then author t else tw_name t),
                                     tw_timestamp := toISOStringSafe (clock j) (tw_timestamp t)\<rparr>)
                       (enumerate 0 (row_tweets item))\<rparr>"

text \<open>
  The replay of the cached items, from the item with the given index on.
  \<open>JSON.parse(item.coordinates)\<close> is not inside a \<open>try\<close> of its own: when it throws, the
  exception leaves the loop, with the state as it is then.
\<close>

fun replay :: "denv \<Rightarrow> nat \<Rightarrow> db_item list \<Rightarrow> dstate \<Rightarrow> exn option \<times> dstate" where
  "replay env k [] st = (None, st)"
| "replay env k (item # items) st =
     (let st1 = st\<lparr>existingHeadlines := existingHeadlines st @ [row_headline item]\<rparr> in
      case row_coordinates item of
        Inl m \<Rightarrow> (Some (Exn m), st1)
      | Inr coords \<Rightarrow>
          replay env (k + 1) items
            (safeEnqueue env (News (cachedNewsItem (replay_clock env k) item coords)) st1))"

definition targetCount :: "string \<Rightarrow> nat" where
  "targetCount scope = (if scope = ''global'' then 40 else if scope = ''region'' then 20 else 5)"

definition fetchCountOf :: "nat \<Rightarrow> nat \<Rightarrow> nat" where
  "fetchCountOf target cachedCount =
     (let neededCount = max 0 (int target - int cachedCount)
      in nat (min (max neededCount 5) 20))"

definition loop_continues :: "nat \<Rightarrow> nat \<Rightarrow> nat \<Rightarrow> int \<Rightarrow> bool" where
  \<comment> \<open>the test of the \<open>while\<close> loop\<close>
  "loop_continues fetched fetchCount attempts el =
     (fetched < fetchCount \<and> attempts < 10 \<and> el < 90000)"

definition tooOld :: "cand_ts \<Rightarrow> int \<Rightarrow> bool" where
  \<comment> \<open>\<open>args.timestamp && new Date(args.timestamp) < sevenDaysAgo\<close>\<close>
  "tooOld ts sevenDaysAgo = (case ts of DateAt t \<Rightarrow> t < sevenDaysAgo | _ \<Rightarrow> False)"

definition payloadThrows :: "tweet list \<Rightarrow> bool" where
  \<comment> \<open>building the argument of \<open>newsItem.create\<close>:
      \<open>t.timestamp ? new Date(t.timestamp).toISOString() : ...\<close> throws a RangeError on an Invalid Date\<close>
  "payloadThrows tweets =
     list_ex (\<lambda>t. case tw_timestamp t of Stamp s p \<Rightarrow> s \<noteq> [] \<and> p = None | _ \<Rightarrow> False) tweets"

definition persist :: "cand_env \<Rightarrow> news_item \<Rightarrow> dstate \<times> string list \<Rightarrow> dstate \<times> string list" where
  \<comment> \<open>"DB Save & Link": the \<open>try\<close> that builds the payload and calls \<open>newsItem.create\<close>,
      and its \<open>catch\<close> with the lookup. When the payload cannot be built the call is not made.\<close>
  "persist ce newsItem acc =
     (case acc of (st, createdItemsIds) \<Rightarrow>
        if \<not> payloadThrows (top_tweets newsItem) \<and> create_ok ce then
          ((record_db [DbCreate newsItem True] st)
             \<lparr>existingHeadlines := existingHeadlines st @ [headline newsItem],
              fetchedCount := fetchedCount st + 1\<rparr>,
           createdItemsIds @ [ni_id newsItem])
        else
          let st1 = record_db
                      ((if payloadThrows (top_tweets newsItem) then [] else [DbCreate newsItem False])
                       @ [DbFindFirst (headline newsItem) (ni_location newsItem) (find_existing ce)]) st
          in case find_existing ce of
               FindSome existingId \<Rightarrow> (st1\<lparr>fetchedCount := fetchedCount st1 + 1\<rparr>, createdItemsIds @ [existingId])
             | _ \<Rightarrow> (st1, createdItemsIds))"

definition newsItemOf :: "cand_env \<Rightarrow> candidate \<Rightarrow> num list \<Rightarrow> tweet list \<Rightarrow> news_item" where
  \<comment> \<open>the object literal \<open>newsItem\<close>\<close>
  "newsItemOf ce args coords realTweets =
     \<lparr>ni_id = uuid ce,
      headline = str_or (c_headline args) [],
      ni_location = str_or (c_location args) [],
      summary = c_summary args,
      category = str_or (c_category args) ''General'',
      coordinates = coords,
      ni_timestamp = now ce,
      top_tweets = realTweets\<rparr>"

definition processCandidate ::
  "denv \<Rightarrow> int \<Rightarrow> cand_env \<Rightarrow> dstate \<times> string list \<Rightarrow> dstate \<times> string list" where
  "processCandidate env sevenDaysAgo ce acc =
     (case acc of (st, createdItemsIds) \<Rightarrow>
      case parsed ce of
        None \<Rightarrow> acc
      | Some args \<Rightarrow>
          let h = str_or (c_headline args) []; l = str_or (c_location args) [] in
          if h = [] \<or> l = [] then acc
          else if h \<in> set (existingHeadlines st) then acc
          else if tooOld (c_timestamp args) sevenDaysAgo then acc
          else
            let st1 = safeEnqueue env (Status (Found h)) st in
            case geocoded ce of
              None \<Rightarrow> (st1, createdItemsIds)
            | Some coords \<Rightarrow>
                let q = str_or (c_search_query args) [];
                    fetched =
                      (if q \<noteq> [] then
                         (case fetchRealTweets (X_BEARER_TOKEN env) (BEARER_TOKEN env) (x_api ce) q (Some h) of
                            Inl e \<Rightarrow> Inl e
                          | Inr realTweets \<Rightarrow>
                              Inr (realTweets,
                                   safeEnqueue env
                                     (Status (if length realTweets > 0 then FoundTweets (length realTweets)
                                              else NoTweets h))
                                     (safeEnqueue env (Status (FetchingTweets q)) st1)))
                       else Inr ([], st1))
                in case fetched of
                     Inl e \<Rightarrow> (safeEnqueue env (Status (FetchingTweets q)) st1, createdItemsIds)
                   | Inr (realTweets, st2) \<Rightarrow>
                       let newsItem = newsItemOf ce args coords realTweets
                       in persist ce newsItem (safeEnqueue env (News newsItem) st2, createdItemsIds))"

fun processCalls ::
  "denv \<Rightarrow> int \<Rightarrow> cand_env list \<Rightarrow> dstate \<times> string list \<Rightarrow> dstate \<times> string list" where
  "processCalls env sevenDaysAgo [] acc = acc"
| "processCalls env sevenDaysAgo (ce # ces) acc =
     processCalls env sevenDaysAgo ces (processCandidate env sevenDaysAgo ce acc)"

definition linkItems ::
  "round_env \<Rightarrow> query_row option \<Rightarrow> string \<Rightarrow> string \<Rightarrow> string list \<Rightarrow> dstate \<Rightarrow> dstate" where
  \<comment> \<open>"Link items to SearchQuery immediately after each batch"; a rejected call
      is caught by the round's \<open>catch\<close>\<close>
  "linkItems renv cachedQuery rawQuery normalizedKey createdItemsIds st =
     (if createdItemsIds = [] then st
      else case cachedQuery of
             Some cq \<Rightarrow> record_db [QueryUpdate (q_id cq) createdItemsIds True (link_ok renv)] st
           | None \<Rightarrow>
               (case existingQ renv of
                  FindThrows \<Rightarrow> record_db [QueryFindFirst normalizedKey FindThrows] st
                | FindSome qid \<Rightarrow>
                    record_db [QueryFindFirst normalizedKey (FindSome qid),
                               QueryUpdate qid createdItemsIds False (link_ok renv)] st
                | FindNone \<Rightarrow>
                    record_db [QueryFindFirst normalizedKey FindNone,
                               QueryCreate (if rawQuery = [] then ''Global News'' else rawQuery)
                                 normalizedKey createdItemsIds (link_ok renv)] st))"

datatype round_result = NextRound dstate | BreakLoop dstate

text \<open>
  One turn of the \<open>while\<close> loop, \<open>attempts\<close> already incremented. The prompt
  (\<open>userContent\<close>) only goes to the model, whose answer the environment gives, so it is
  not part of the state.
\<close>

definition doRound ::
  "denv \<Rightarrow> int \<Rightarrow> query_row option \<Rightarrow> string \<Rightarrow> string \<Rightarrow> nat \<Rightarrow> nat \<Rightarrow> round_env
     \<Rightarrow> dstate \<Rightarrow> round_result" where
  "doRound env sevenDaysAgo cachedQuery rawQuery normalizedKey fetchCount attempts renv st =
     (let st1 = (if attempts > 1
                 then safeEnqueue env (Status (ScanningMore (fetchedCount st) fetchCount)) st
                 else st)
      in case grok renv of
           GrokThrows \<Rightarrow> NextRound st1
         | NoReader \<Rightarrow> BreakLoop st1
         | ReadThrows \<Rightarrow> NextRound st1
         | ToolCalls calls \<Rightarrow>
             (case processCalls env sevenDaysAgo calls (st1, []) of
                (st2, createdItemsIds) \<Rightarrow>
                  NextRound (linkItems renv cachedQuery rawQuery normalizedKey createdItemsIds st2)))"

function discoverLoop ::
  "denv \<Rightarrow> int \<Rightarrow> query_row option \<Rightarrow> string \<Rightarrow> string \<Rightarrow> nat \<Rightarrow> nat \<Rightarrow> dstate \<Rightarrow> dstate" where
  "discoverLoop env sevenDaysAgo cachedQuery rawQuery normalizedKey fetchCount attempts st =
     (if loop_continues (fetchedCount st) fetchCount attempts (elapsed (rounds env attempts))
      then (case doRound env sevenDaysAgo cachedQuery rawQuery normalizedKey fetchCount
                   (attempts + 1) (rounds env attempts) st of
              NextRound st' \<Rightarrow>
                discoverLoop env sevenDaysAgo cachedQuery rawQuery normalizedKey fetchCount (attempts + 1) st'
            | BreakLoop st' \<Rightarrow> st')
      else st)"
  by pat_completeness auto
termination
  by (relation "measure (\<lambda>(env, sda, cq, rq, nk, fc, attempts, st). 10 - attempts)")
     (auto simp: loop_continues_def)

definition replayCached :: "denv \<Rightarrow> string \<Rightarrow> query_row option \<Rightarrow> dstate \<Rightarrow> exn option \<times> dstate" where
  \<comment> \<open>\<open>if (cachedQuery && cachedQuery.items.length > 0) { ... }\<close>\<close>
  "replayCached env normalizedKey cachedQuery st =
     (case cachedQuery of
        None \<Rightarrow> (None, st)
      | Some cq \<Rightarrow>
          if length (q_items cq) > 0
          then replay env 0 (q_items cq) (safeEnqueue env (Status (FoundCached normalizedKey)) st)
          else (None, st))"

definition fetchFresh ::
  "denv \<Rightarrow> string \<Rightarrow> string \<Rightarrow> string \<Rightarrow> query_row option \<Rightarrow> dstate \<Rightarrow> dstate" where
  \<comment> \<open>"3. Fetch Fresh Data", up to the end of the \<open>while\<close> loop\<close>
  "fetchFresh env rawQuery normalizedKey scope cachedQuery st =
     (let sevenDaysAgo = now_seven env - 7 * 24 * 60 * 60 * 1000;
          target = targetCount scope;
          cachedCount = length (existingHeadlines st);
          fetchCount = fetchCountOf target cachedCount;
          st1 = safeEnqueue env (Status (Scanning scope target fetchCount)) st
      in discoverLoop env sevenDaysAgo cachedQuery rawQuery normalizedKey fetchCount 0 st1)"

definition streamBody :: "denv \<Rightarrow> string \<Rightarrow> dstate \<Rightarrow> exn option \<times> dstate" where
  \<comment> \<open>the outer \<open>try\<close> block of \<open>start\<close>; \<open>Some e\<close> is an exception that reaches its \<open>catch\<close>\<close>
  "streamBody env rawQuery st0 =
     (let st1 = safeEnqueue env (Status Analyzing) st0;
          (normalizedKey, scope) = normalizeQuery rawQuery (normalize_response env)
      in case db_searchQuery env of
           Inl m \<Rightarrow> (Some (Exn m), st1)
         | Inr table \<Rightarrow>
             let cachedQuery = cacheLookup (now_six env) (now_seven env) normalizedKey table;
                 st2 = record_db [CacheLookup cachedQuery] st1
             in case replayCached env normalizedKey cachedQuery st2 of
                  (Some e, st3) \<Rightarrow> (Some e, st3)
                | (None, st3) \<Rightarrow>
                    (None, safeEnqueue env Complete
                             (fetchFresh env rawQuery normalizedKey scope cachedQuery st3)))"

definition start :: "denv \<Rightarrow> string \<Rightarrow> dstate" where
  "start env rawQuery =
     (case streamBody env rawQuery (safeEnqueue env Connected init_dstate) of
        (None, st) \<Rightarrow> st
      | (Some (Exn m), st) \<Rightarrow> safeEnqueue env (ErrorFrame m) st)"

datatype discovery_response = ConfigMissing | EventStream "action list"

definition discovery_GET :: "string option \<Rightarrow> denv \<Rightarrow> string option \<Rightarrow> discovery_response" where
  "discovery_GET XAI_API_KEY env query =
     (let rawQuery = str_or query [] in
      if XAI_API_KEY = None \<or> XAI_API_KEY = Some [] then ConfigMissing
      else EventStream (trace (start env rawQuery)))"

section \<open>Auxiliary notions for the statements\<close>

subsection \<open>Geocode endpoint\<close>

text \<open>The states of the process: the empty maps at start-up, then whatever requests
  and the hourly clean-up leave behind.\<close>

inductive reachable :: "gstate \<Rightarrow> bool" where
  r_init: "reachable init_gstate"
| r_GET: "reachable s \<Longrightarrow> geocode_GET s req env = (r, s', u) \<Longrightarrow> reachable s'"
| r_cleanup: "reachable s \<Longrightarrow> reachable (cleanupCache t s)"

text \<open>Requests served one after the other.\<close>

fun serve :: "gstate \<Rightarrow> (request \<times> genv) list \<Rightarrow> gstate \<times> response list" where
  "serve s [] = (s, [])"
| "serve s ((req, env) # rest) =
     (let g = geocode_GET s req env; t = serve (fst (snd g)) rest
      in (fst t, fst g # snd t))"

text \<open>A response that was produced after the call of \<open>checkRateLimit\<close>: neither the 400
  for a missing location nor an answer from the cache.\<close>

definition reached_limiter :: "response \<Rightarrow> bool" where
  "reached_limiter r =
     (status r \<noteq> 400 \<and> (case body r of GeocodedBody l a b d cached \<Rightarrow> \<not> cached | _ \<Rightarrow> True))"

definition accounted :: "string \<Rightarrow> ((request \<times> genv) \<times> response) list \<Rightarrow> nat" where
  "accounted ip ps = length (filter (\<lambda>((r, e), resp). clientIp r = ip \<and> reached_limiter resp) ps)"

definition paris_req :: request where
  "paris_req = \<lparr>location = Some '' Paris '', x_forwarded_for = Some ''10.0.0.1, 10.0.0.2'', x_real_ip = None\<rparr>"

definition paris_env :: genv where
  "paris_env = \<lparr>t_cache = 1000, t_limit = 1000, t_store = 1005, upstream = GeoSuccess 2 48 ''Paris, France''\<rparr>"

definition paris_state :: gstate where
  "paris_state =
     \<lparr>geocodeCache = [(''paris'', \<lparr>lat = 48, lon = 2, display_name = ''Paris, France'', ce_timestamp = 1005\<rparr>)],
      rateLimitMap = [(''10.0.0.1'', \<lparr>rl_count = 1, resetAt = 61000\<rparr>)]\<rparr>"

definition nowhere_req :: request where
  "nowhere_req = \<lparr>location = Some ''Nowhere'', x_forwarded_for = Some ''10.0.0.1, 10.0.0.2'', x_real_ip = None\<rparr>"

definition nowhere_env :: "int \<Rightarrow> genv" where
  "nowhere_env t = \<lparr>t_cache = t, t_limit = t, t_store = t, upstream = GeoFailure (Some ''Location not found'')\<rparr>"

subsection \<open>Discovery endpoint\<close>

definition calls_of :: "grok_response \<Rightarrow> cand_env list" where
  "calls_of g = (case g of ToolCalls calls \<Rightarrow> calls | _ \<Rightarrow> [])"

fun round_state :: "round_result \<Rightarrow> dstate" where
  "round_state (NextRound st) = st"
| "round_state (BreakLoop st) = st"

text \<open>The headlines carried by the \<open>news\<close> frames of a trace, in order.\<close>

fun news_headlines :: "action list \<Rightarrow> string list" where
  "news_headlines [] = []"
| "news_headlines (Enqueue (News n) # as) = headline n # news_headlines as"
| "news_headlines (a # as) = news_headlines as"

text \<open>The result of the cache lookup of a run, and what its replay can emit.\<close>

definition cachedQueryOf :: "denv \<Rightarrow> string \<Rightarrow> query_row option" where
  "cachedQueryOf env rawQuery =
     (case db_searchQuery env of
        Inl m \<Rightarrow> None
      | Inr table \<Rightarrow>
          cacheLookup (now_six env) (now_seven env)
            (fst (normalizeQuery rawQuery (normalize_response env))) table)"

definition cached_items :: "denv \<Rightarrow> string \<Rightarrow> db_item list" where
  "cached_items env rawQuery = (case cachedQueryOf env rawQuery of None \<Rightarrow> [] | Some cq \<Rightarrow> q_items cq)"

definition replayed :: "denv \<Rightarrow> nat \<Rightarrow> db_item list \<Rightarrow> news_item list" where
  \<comment> \<open>the news items that the replay builds from the rows, the first row having the given index\<close>
  "replayed env k items =
     concat (map (\<lambda>(j, i). case row_coordinates i of
                             Inl m \<Rightarrow> []
                           | Inr c \<Rightarrow> [cachedNewsItem (replay_clock env j) i c])
                 (enumerate k items))"

definition cached_news :: "denv \<Rightarrow> string \<Rightarrow> news_item list" where
  "cached_news env rawQuery = replayed env 0 (cached_items env rawQuery)"

text \<open>An exception reaches the \<open>catch\<close> of \<open>start\<close>: the cache lookup rejects, or a
  replayed row has coordinates that do not parse.\<close>

definition setup_throws :: "denv \<Rightarrow> string \<Rightarrow> bool" where
  "setup_throws env rawQuery =
     (isl (db_searchQuery env) \<or> list_ex (\<lambda>i. isl (row_coordinates i)) (cached_items env rawQuery))"

text \<open>A search answer from which \<open>fetchRealTweets\<close> gets no post: network error, non-OK
  status, malformed body, no data, or no English post with more than ten characters.\<close>

definition no_valid_post :: "x_response \<Rightarrow> bool" where
  "no_valid_post r =
     (case r of
        XData d users \<Rightarrow> filter longText (map (toTweet users) (filter (\<lambda>t. rt_lang t = ''en'') d)) = []
      | _ \<Rightarrow> True)"

text \<open>Every news frame of a trace is either one of the items \<open>C\<close> or directly followed
  by the persistence attempt for the item it carries: the \<open>newsItem.create\<close> call, or,
  when the payload of that call cannot be built, the recovery lookup by the item's
  headline and location.\<close>

fun news_ok :: "news_item list \<Rightarrow> action list \<Rightarrow> bool" where
  "news_ok C [] = True"
| "news_ok C (Enqueue (News n) # as) =
     ((n \<in> set C
       \<or> (if payloadThrows (top_tweets n)
           then (case as of DbFindFirst h l r # rest \<Rightarrow> h = headline n \<and> l = ni_location n | _ \<Rightarrow> False)
           else (case as of DbCreate m ok # rest \<Rightarrow> m = n | _ \<Rightarrow> False)))
      \<and> news_ok C as)"
| "news_ok C (a # as) = news_ok C as"

text \<open>The posts fetched for a candidate, and the candidates whose event is saved by
  \<open>newsItem.create\<close>: the payload can be built from the posts fetched for it (each
  timestamp is missing or parses) and the call resolves.\<close>

definition tweetsFor :: "denv \<Rightarrow> cand_env \<Rightarrow> candidate \<Rightarrow> exn + tweet list" where
  "tweetsFor env ce args =
     (let q = str_or (c_search_query args) [] in
      if q \<noteq> []
      then fetchRealTweets (X_BEARER_TOKEN env) (BEARER_TOKEN env) (x_api ce) q
             (Some (str_or (c_headline args) []))
      else Inr [])"

definition saved :: "denv \<Rightarrow> cand_env \<Rightarrow> bool" where
  "saved env ce =
     (create_ok ce
      \<and> (case parsed ce of
           None \<Rightarrow> True
         | Some args \<Rightarrow>
             (case tweetsFor env ce args of Inl e \<Rightarrow> True | Inr ts \<Rightarrow> \<not> payloadThrows ts)))"

text \<open>The claim of the specification, in its words: when a news frame is enqueued, the
  event it carries (identified by headline and location) is already in the store,
  because the lookup returned it, or \<open>newsItem.create\<close> has resolved for it, or the
  recovery lookup has found it.\<close>

fun emitted_only_persisted :: "(string \<times> string) list \<Rightarrow> action list \<Rightarrow> bool" where
  "emitted_only_persisted P [] = True"
| "emitted_only_persisted P (CacheLookup r # as) =
     emitted_only_persisted
       ((case r of None \<Rightarrow> [] | Some cq \<Rightarrow> map (\<lambda>i. (row_headline i, row_location i)) (q_items cq)) @ P) as"
| "emitted_only_persisted P (DbCreate n ok # as) =
     emitted_only_persisted (if ok then (headline n, ni_location n) # P else P) as"
| "emitted_only_persisted P (DbFindFirst h l r # as) =
     emitted_only_persisted (case r of FindSome i \<Rightarrow> (h, l) # P | _ \<Rightarrow> P) as"
| "emitted_only_persisted P (Enqueue (News n) # as) =
     ((headline n, ni_location n) \<in> set P \<and> emitted_only_persisted P as)"
| "emitted_only_persisted P (a # as) = emitted_only_persisted P as"

text \<open>The loop test as the specification words it.\<close>

definition spec_loop_continues :: "nat \<Rightarrow> string \<Rightarrow> nat \<Rightarrow> int \<Rightarrow> bool" where
  "spec_loop_continues fetched scope attempts el =
     (fetched < targetCount scope \<and> attempts < 10 \<and> el < 90000)"

text \<open>The frames that end a stream, and the states whose trace has none.\<close>

fun terminal :: "frame \<Rightarrow> bool" where
  "terminal Complete = True"
| "terminal (ErrorFrame m) = True"
| "terminal f = False"

definition no_terminal :: "dstate \<Rightarrow> bool" where
  "no_terminal st = (\<forall>f \<in> set (frames (trace st)). \<not> terminal f)"

text \<open>Invariants of the handler's state used in the proofs: the headlines of the news
  frames are distinct and known; the news frames are in order; every item of the trace
  has a known origin.\<close>

definition hd_inv :: "dstate \<Rightarrow> bool" where
  "hd_inv st = (distinct (news_headlines (trace st))
                \<and> set (news_headlines (trace st)) \<subseteq> set (existingHeadlines st))"

definition nk_inv :: "news_item list \<Rightarrow> dstate \<Rightarrow> bool" where
  "nk_inv C st = news_ok C (trace st)"

definition from_cand :: "denv \<Rightarrow> cand_env \<Rightarrow> news_item \<Rightarrow> bool" where
  "from_cand env ce n =
     (\<exists>args. parsed ce = Some args \<and> headline n = str_or (c_headline args) []
        \<and> ni_location n = str_or (c_location args) []
        \<and> ni_id n = uuid ce \<and> ni_timestamp n = now ce
        \<and> \<not> tooOld (c_timestamp args) (now_seven env - 7 * 24 * 60 * 60 * 1000))"

definition items_of :: "action list \<Rightarrow> news_item set" where
  "items_of as = {n. Enqueue (News n) \<in> set as \<or> (\<exists>ok. DbCreate n ok \<in> set as)}"

definition ts_inv :: "denv \<Rightarrow> news_item list \<Rightarrow> dstate \<Rightarrow> bool" where
  "ts_inv env C st =
     (\<forall>n \<in> items_of (trace st).
        n \<in> set C \<or> (\<exists>a. \<exists>ce \<in> set (calls_of (grok (rounds env a))). from_cand env ce n))"

text \<open>The trace of a state starts with the given actions.\<close>

definition extends :: "action list \<Rightarrow> dstate \<Rightarrow> bool" where
  "extends pre st = (\<exists>ext. trace st = pre @ ext)"

subsection \<open>Concrete runs\<close>

definition mk_cand :: "string \<Rightarrow> string \<Rightarrow> cand_ts \<Rightarrow> string \<Rightarrow> int \<Rightarrow> num list option \<Rightarrow> bool \<Rightarrow> find_result \<Rightarrow> cand_env" where
  "mk_cand h l ts u t geo ok fr =
     \<lparr>parsed = Some \<lparr>c_headline = Some h, c_location = Some l, c_summary = Some ''summary'',
                     c_category = None, c_timestamp = ts, c_search_query = None\<rparr>,
      geocoded = geo, x_api = (\<lambda>i q. XNoData), uuid = u, now = t, create_ok = ok, find_existing = fr\<rparr>"

definition last_round :: round_env where
  "last_round = \<lparr>elapsed = 2000, grok = NoReader, existingQ = FindNone, link_ok = True\<rparr>"

definition mk_env :: "query_row list option \<Rightarrow> cand_env list \<Rightarrow> denv" where
  "mk_env table calls =
     \<lparr>abort_after = None, X_BEARER_TOKEN = None, BEARER_TOKEN = None,
      normalize_response = None, now_six = 1000000000, now_seven = 1000000000,
      db_searchQuery = (case table of None \<Rightarrow> Inl ''PrismaClientError'' | Some t \<Rightarrow> Inr t),
      replay_clock = (\<lambda>k j. 1000000000),
      rounds = (\<lambda>a. if a = 0 then \<lparr>elapsed = 0, grok = ToolCalls calls, existingQ = FindNone, link_ok = True\<rparr>
                     else last_round)\<rparr>"

definition quake_item :: "string \<Rightarrow> string \<Rightarrow> news_item" where
  "quake_item u l =
     \<lparr>ni_id = u, headline = ''Quake'', ni_location = l, summary = Some ''summary'',
      category = ''General'', coordinates = [139, 35], ni_timestamp = 1000000000, top_tweets = []\<rparr>"

definition old_row :: db_item where
  "old_row = \<lparr>row_id = ''i1'', row_headline = ''Old story'', row_location = ''Rome'',
      row_summary = None, row_category = ''General'', row_coordinates = Inr [12, 41],
      row_timestamp = 300000000, row_tweets = []\<rparr>"

definition recent_row :: db_item where
  "recent_row = \<lparr>row_id = ''i2'', row_headline = ''New story'', row_location = ''Oslo'',
      row_summary = None, row_category = ''General'', row_coordinates = Inr [10, 59],
      row_timestamp = 999000000, row_tweets = []\<rparr>"

definition cache_table :: "query_row list" where
  "cache_table =
     [\<lparr>q_id = ''q0'', q_normalizedKey = ''Global News'', q_timestamp = 900000000, q_items = [recent_row]\<rparr>,
      \<lparr>q_id = ''q1'', q_normalizedKey = ''Global News'', q_timestamp = 999999000, q_items = [old_row, recent_row]\<rparr>]"

definition dup_table :: "query_row list" where
  "dup_table =
     [\<lparr>q_id = ''q2'', q_normalizedKey = ''Global News'', q_timestamp = 999999000,
       q_items = [recent_row, recent_row\<lparr>row_id := ''i3'', row_location := ''Bergen''\<rparr>]\<rparr>]"

definition scenario_calls :: "cand_env list" where
  "scenario_calls =
     [mk_cand ''A'' ''Tokyo'' NoTimestamp ''u1'' 1000000000 (Some [139, 35]) True FindNone,
      mk_cand ''B'' ''Oslo'' NoTimestamp ''u2'' 1000000000 (Some [10, 59]) True FindNone,
      mk_cand ''C'' ''Atlantis'' NoTimestamp ''u3'' 1000000000 None True FindNone,
      mk_cand ''D'' ''Rome'' NoTimestamp ''u4'' 1000000000 (Some [12, 41]) True FindNone,
      mk_cand ''E'' ''Lima'' NoTimestamp ''u5'' 1000000000 (Some [-77, -12]) True FindNone]"

definition twenty_calls :: "cand_env list" where
  "twenty_calls =
     map (\<lambda>i. mk_cand (replicate (Suc i) CHR ''x'') ''Tokyo'' NoTimestamp (replicate (Suc i) CHR ''u'')
                 1000000000 (Some [139, 35]) True FindNone) [0..<20]"

fun is_scanning_more :: "frame \<Rightarrow> bool" where
  "is_scanning_more (Status (ScanningMore a b)) = True"
| "is_scanning_more f = False"

definition run_summary :: "dstate \<Rightarrow> nat \<times> frame list \<times> frame" where
  "run_summary st =
     (fetchedCount st, filter is_scanning_more (frames (trace st)), last (frames (trace st)))"

definition fetched_state :: "nat \<Rightarrow> dstate" where
  "fetched_state k = \<lparr>enq_calls = 0, existingHeadlines = [], fetchedCount = k, trace = []\<rparr>"

definition hint_cand :: cand_env where
  "hint_cand =
     \<lparr>parsed = Some \<lparr>c_headline = Some ''Quake'', c_location = Some ''Tokyo'', c_summary = Some ''summary'',
                     c_category = None, c_timestamp = NoTimestamp, c_search_query = Some ''Quake Tokyo''\<rparr>,
      geocoded = Some [139, 35], x_api = (\<lambda>i q. XFetchThrows), uuid = ''u1'', now = 1000000000,
      create_ok = True, find_existing = FindNone\<rparr>"

text \<open>A candidate with a search hint whose search answer holds one post, with a
  timestamp that does not parse; and a run with a bearer token.\<close>

definition undated_post :: raw_tweet where
  "undated_post =
     \<lparr>rt_id = ''t1'', rt_text = Some ''A storm is coming in'', rt_author_id = ''a1'', rt_lang = ''en'',
      rt_created_at = Stamp ''soon'' None, like_count = None, reply_count = None, retweet_count = None\<rparr>"

definition storm_cand :: "string \<Rightarrow> string \<Rightarrow> cand_env" where
  "storm_cand l u =
     \<lparr>parsed = Some \<lparr>c_headline = Some ''Storm'', c_location = Some l, c_summary = Some ''summary'',
                     c_category = None, c_timestamp = NoTimestamp, c_search_query = Some ''storm''\<rparr>,
      geocoded = Some [5, 52], x_api = (\<lambda>i q. XData [undated_post] []), uuid = u, now = 1000000000,
      create_ok = True, find_existing = FindNone\<rparr>"

definition storm_env :: "cand_env list \<Rightarrow> denv" where
  "storm_env calls = (mk_env (Some []) calls)\<lparr>X_BEARER_TOKEN := Some ''token''\<rparr>"


text \<open>The same candidate with a post whose timestamp parses.\<close>

definition dated_cand :: "string \<Rightarrow> string \<Rightarrow> cand_env" where
  "dated_cand l u =
     (storm_cand l u)\<lparr>x_api := (\<lambda>i q. XData [undated_post\<lparr>rt_created_at := Stamp ''2025-11-30T10:00:00.000Z'' (Some 999999000)\<rparr>] [])\<rparr>"
section \<open>Properties of the geocode endpoint\<close>

subsection \<open>Strings and maps\<close>

lemma trim_Nil [simp]: "trim [] = []"
  by (simp add: trim_def)

lemma trim_all_space: "\<forall>c \<in> set s. is_space c \<Longrightarrow> trim s = []"
proof -
  assume "\<forall>c \<in> set s. is_space c"
  then have "dropWhile is_space s = []" by (simp add: dropWhile_eq_Nil_conv)
  then show ?thesis unfolding trim_def by (simp only: rev.simps dropWhile.simps)
qed

lemma trim_empty_iff: "trim s = [] \<longleftrightarrow> (\<forall>c \<in> set s. is_space c)"
proof
  assume t: "trim s = []"
  let ?d = "dropWhile is_space s"
  from t have all: "\<forall>c \<in> set ?d. is_space c"
    by (simp add: trim_def dropWhile_eq_Nil_conv)
  have "?d = []"
  proof (rule ccontr)
    assume ne: "?d \<noteq> []"
    then have "\<not> is_space (hd ?d)" by (rule hd_dropWhile)
    moreover from ne have "hd ?d \<in> set ?d" by simp
    ultimately show False using all by blast
  qed
  then show "\<forall>c \<in> set s. is_space c" by (simp add: dropWhile_eq_Nil_conv)
qed (rule trim_all_space)

lemma toLowerCase_Nil: "toLowerCase s = [] \<longleftrightarrow> s = []"
  by (simp add: toLowerCase_def)

lemma keys_update: "fst ` set (AList.update k v m) = insert k (fst ` set m)"
  by (induction m) auto

lemma keys_delete: "fst ` set (AList.delete k m) \<subseteq> fst ` set m"
  by (induction m) auto

lemma clientIp_nonempty: "clientIp req \<noteq> []"
  by (simp add: clientIp_def Let_def split: option.splits)

subsection \<open>The cache never holds the empty key\<close>

lemma cacheCheck_keys: "fst ` set (snd (cacheCheck t k c)) \<subseteq> fst ` set c"
  using keys_delete[of k c] by (auto simp: cacheCheck_def split: option.splits if_splits)

lemma cacheStore_keys: "fst ` set (cacheStore t k a b dn c) \<subseteq> insert k (fst ` set c)"
proof -
  let ?c' = "AList.update k \<lparr>lat = b, lon = a, display_name = dn, ce_timestamp = t\<rparr> c"
  have "cacheStore t k a b dn c = ?c' \<or> (\<exists>k'. cacheStore t k a b dn c = AList.delete k' ?c')"
    by (auto simp: cacheStore_def Let_def split: list.splits)
  then show ?thesis
  proof
    assume "cacheStore t k a b dn c = ?c'"
    then show ?thesis by (simp add: keys_update)
  next
    assume "\<exists>k'. cacheStore t k a b dn c = AList.delete k' ?c'"
    then obtain k' where "cacheStore t k a b dn c = AList.delete k' ?c'" ..
    then show ?thesis using keys_delete[of k' ?c'] by (simp add: keys_update)
  qed
qed

lemma cacheCheck_no_empty:
  "[] \<notin> fst ` set c \<Longrightarrow> [] \<notin> fst ` set (snd (cacheCheck t k c))"
  using cacheCheck_keys[of t k c] by blast

lemma cacheStore_no_empty:
  "k \<noteq> [] \<Longrightarrow> [] \<notin> fst ` set c \<Longrightarrow> [] \<notin> fst ` set (cacheStore t k a b dn c)"
  using cacheStore_keys[of t k a b dn c] by blast

lemma GET_cache_keys:
  assumes inv: "[] \<notin> fst ` set (geocodeCache s)"
  shows "[] \<notin> fst ` set (geocodeCache (fst (snd (geocode_GET s req env))))"
proof (cases "location req")
  case None
  then show ?thesis using inv by (simp add: geocode_GET_def)
next
  case (Some loc)
  show ?thesis
  proof (cases "loc = [] \<or> trim loc = []")
    case True
    with Some show ?thesis using inv by (simp add: geocode_GET_def)
  next
    case False
    let ?k = "toLowerCase (trim loc)"
    let ?cc = "cacheCheck (t_cache env) ?k (geocodeCache s)"
    from False have k: "?k \<noteq> []" by (simp add: toLowerCase_Nil)
    have c1: "[] \<notin> fst ` set (snd ?cc)" using inv by (rule cacheCheck_no_empty)
    have st: "\<And>a b dn. [] \<notin> fst ` set (cacheStore (t_store env) ?k a b dn (snd ?cc))"
      using k c1 by (rule cacheStore_no_empty)
    show ?thesis
      using Some False c1 st
      by (simp add: geocode_GET_def Let_def split_beta split: option.splits geo_result.splits)
  qed
qed

lemma reachable_keys: "reachable s \<Longrightarrow> [] \<notin> fst ` set (geocodeCache s)"
proof (induction rule: reachable.induct)
  case r_init
  then show ?case by (simp add: init_gstate_def)
next
  case (r_GET s req env r s' u)
  then show ?case using GET_cache_keys[of s req env] by simp
next
  case (r_cleanup s t)
  then show ?case by (auto simp: cleanupCache_def)
qed

subsection \<open>The three ways through the handler\<close>

lemma GET_bad:
  assumes "location req = None \<or> (\<exists>loc. location req = Some loc \<and> trim loc = [])"
  shows "geocode_GET s req env = (bad_request, s, [])"
  using assms by (auto simp: geocode_GET_def)

lemma GET_hit:
  assumes "location req = Some loc" "trim loc \<noteq> []"
    "cacheCheck (t_cache env) (toLowerCase (trim loc)) (geocodeCache s) = (Some e, c1)"
  shows "geocode_GET s req env =
           (\<lparr>status = 200, retry_after_header = None,
             body = GeocodedBody loc (lon e) (lat e) (display_name e) True\<rparr>,
            s\<lparr>geocodeCache := c1\<rparr>, [])"
proof -
  from assms(2) have "loc \<noteq> []" by auto
  with assms show ?thesis by (simp add: geocode_GET_def)
qed

lemma GET_miss_limited:
  assumes "location req = Some loc" "trim loc \<noteq> []"
    "cacheCheck (t_cache env) (toLowerCase (trim loc)) (geocodeCache s) = (None, c1)"
    "checkRateLimit (t_limit env) (clientIp req) (rateLimitMap s) = (rl, m1)" "\<not> allowed rl"
  shows "geocode_GET s req env =
           (\<lparr>status = 429,
             retry_after_header = Some (case retryAfter rl of None \<Rightarrow> 60 | Some r \<Rightarrow> r),
             body = RateLimitBody (retryAfter rl)\<rparr>,
            s\<lparr>geocodeCache := c1, rateLimitMap := m1\<rparr>, [])"
proof -
  from assms(2) have "loc \<noteq> []" by auto
  with assms show ?thesis by (simp add: geocode_GET_def)
qed

lemma GET_miss_allowed:
  assumes "location req = Some loc" "trim loc \<noteq> []"
    "cacheCheck (t_cache env) (toLowerCase (trim loc)) (geocodeCache s) = (None, c1)"
    "checkRateLimit (t_limit env) (clientIp req) (rateLimitMap s) = (rl, m1)" "allowed rl"
  shows "rateLimitMap (fst (snd (geocode_GET s req env))) = m1"
    and "snd (snd (geocode_GET s req env)) = [loc]"
    and "reached_limiter (fst (geocode_GET s req env))"
    and "status (fst (geocode_GET s req env)) \<noteq> 429"
proof -
  from assms(2) have "loc \<noteq> []" by auto
  with assms show "rateLimitMap (fst (snd (geocode_GET s req env))) = m1"
    and "snd (snd (geocode_GET s req env)) = [loc]"
    and "reached_limiter (fst (geocode_GET s req env))"
    and "status (fst (geocode_GET s req env)) \<noteq> 429"
    by (cases "upstream env"; simp add: geocode_GET_def reached_limiter_def)+
qed

lemma GET_cases:
  obtains (bad) "geocode_GET s req env = (bad_request, s, [])"
  | (hit) loc e c1 where "location req = Some loc" "trim loc \<noteq> []"
      "cacheCheck (t_cache env) (toLowerCase (trim loc)) (geocodeCache s) = (Some e, c1)"
  | (miss) loc c1 where "location req = Some loc" "trim loc \<noteq> []"
      "cacheCheck (t_cache env) (toLowerCase (trim loc)) (geocodeCache s) = (None, c1)"
proof (cases "location req")
  case None
  then show ?thesis using GET_bad[of req s env] bad by simp
next
  case (Some loc)
  show ?thesis
  proof (cases "trim loc = []")
    case True
    with Some show ?thesis using GET_bad[of req s env] bad by simp
  next
    case False
    obtain h c1 where cc: "cacheCheck (t_cache env) (toLowerCase (trim loc)) (geocodeCache s) = (h, c1)"
      by (cases "cacheCheck (t_cache env) (toLowerCase (trim loc)) (geocodeCache s)")
    show ?thesis
    proof (cases h)
      case None
      with Some False cc show ?thesis using miss by simp
    next
      case (Some e)
      with \<open>location req = Some loc\<close> False cc show ?thesis using hit by simp
    qed
  qed
qed

lemma cache_hit_step:
  assumes "location req = Some loc" "trim loc \<noteq> []"
    "map_of (geocodeCache s) (toLowerCase (trim loc)) = Some e"
    "t_cache env - ce_timestamp e < CACHE_TTL"
  shows "geocode_GET s req env =
           (\<lparr>status = 200, retry_after_header = None,
             body = GeocodedBody loc (lon e) (lat e) (display_name e) True\<rparr>, s, [])"
proof -
  have "cacheCheck (t_cache env) (toLowerCase (trim loc)) (geocodeCache s) = (Some e, geocodeCache s)"
    using assms(3,4) by (simp add: cacheCheck_def)
  from GET_hit[OF assms(1,2) this] show ?thesis by simp
qed

lemma GET_miss_reaches:
  assumes "location req = Some loc" "trim loc \<noteq> []"
    "cacheCheck (t_cache env) (toLowerCase (trim loc)) (geocodeCache s) = (None, c1)"
  shows "reached_limiter (fst (geocode_GET s req env))"
proof -
  obtain rl m1 where rl: "checkRateLimit (t_limit env) (clientIp req) (rateLimitMap s) = (rl, m1)"
    by (cases "checkRateLimit (t_limit env) (clientIp req) (rateLimitMap s)")
  show ?thesis
  proof (cases "allowed rl")
    case True
    from GET_miss_allowed(3)[OF assms rl True] show ?thesis .
  next
    case False
    from GET_miss_limited[OF assms rl False] show ?thesis by (simp add: reached_limiter_def)
  qed
qed

subsection \<open>The rate-limit table\<close>

lemma checkRateLimit_other:
  "ip \<noteq> [] \<Longrightarrow> ip' \<noteq> [] \<Longrightarrow> ip \<noteq> ip' \<Longrightarrow>
   map_of (snd (checkRateLimit t ip' m)) ip = map_of m ip"
  by (simp add: checkRateLimit_def Let_def update_conv' split: option.splits)

lemma checkRateLimit_open:
  assumes "ip \<noteq> []" "map_of m ip = Some l" "t \<le> resetAt l"
  shows "checkRateLimit t ip m =
     (if rl_count l \<ge> 50
      then (\<lparr>allowed = False, retryAfter = Some (ceil_div (resetAt l - t) 1000)\<rparr>, m)
      else (\<lparr>allowed = True, retryAfter = None\<rparr>, AList.update ip (l\<lparr>rl_count := rl_count l + 1\<rparr>) m))"
  using assms by (simp add: checkRateLimit_def MAX_REQUESTS_PER_WINDOW_def)

lemma checkRateLimit_fresh:
  assumes "ip \<noteq> []" "case map_of m ip of None \<Rightarrow> True | Some l \<Rightarrow> t > resetAt l"
  shows "checkRateLimit t ip m =
     (\<lparr>allowed = True, retryAfter = None\<rparr>,
      AList.update ip \<lparr>rl_count = 1, resetAt = t + RATE_LIMIT_WINDOW\<rparr> m)"
  using assms by (cases "map_of m ip") (simp_all add: checkRateLimit_def)

lemma GET_rateLimitMap:
  "rateLimitMap (fst (snd (geocode_GET s req env))) =
     (if reached_limiter (fst (geocode_GET s req env))
      then snd (checkRateLimit (t_limit env) (clientIp req) (rateLimitMap s))
      else rateLimitMap s)"
proof (cases rule: GET_cases[of s req env])
  case bad
  then show ?thesis by (simp add: reached_limiter_def bad_request_def)
next
  case (hit loc e c1)
  then show ?thesis using GET_hit[OF hit] by (simp add: reached_limiter_def)
next
  case (miss loc c1)
  obtain rl m1 where rl: "checkRateLimit (t_limit env) (clientIp req) (rateLimitMap s) = (rl, m1)"
    by (cases "checkRateLimit (t_limit env) (clientIp req) (rateLimitMap s)")
  show ?thesis
  proof (cases "allowed rl")
    case True
    from GET_miss_allowed(1,3)[OF miss rl True] rl show ?thesis
      by simp
  next
    case False
    from GET_miss_limited[OF miss rl False] rl show ?thesis
      by (simp add: reached_limiter_def)
  qed
qed

lemma GET_limited:
  assumes reached: "reached_limiter (fst (geocode_GET s req env))"
    and rl: "checkRateLimit (t_limit env) (clientIp req) (rateLimitMap s) = (rl, m1)"
    and no: "\<not> allowed rl"
  shows "\<exists>c. geocode_GET s req env =
           (\<lparr>status = 429,
             retry_after_header = Some (case retryAfter rl of None \<Rightarrow> 60 | Some r \<Rightarrow> r),
             body = RateLimitBody (retryAfter rl)\<rparr>,
            s\<lparr>geocodeCache := c, rateLimitMap := m1\<rparr>, [])"
proof (cases rule: GET_cases[of s req env])
  case bad
  with reached show ?thesis by (simp add: reached_limiter_def bad_request_def)
next
  case (hit loc e c1)
  with reached show ?thesis using GET_hit[OF hit] by (simp add: reached_limiter_def)
next
  case (miss loc c1)
  from GET_miss_limited[OF miss rl no] show ?thesis by blast
qed

lemma GET_entry_step:
  assumes e: "map_of (rateLimitMap s) ip = Some \<lparr>rl_count = k, resetAt = R\<rparr>"
    and k: "k \<le> 50" and ip: "ip \<noteq> []"
    and t: "clientIp req = ip \<longrightarrow> t_limit env \<le> R"
  shows "map_of (rateLimitMap (fst (snd (geocode_GET s req env)))) ip =
           Some \<lparr>rl_count = (if clientIp req = ip \<and> reached_limiter (fst (geocode_GET s req env))
                               then min 50 (k + 1) else k),
                 resetAt = R\<rparr>"
proof (cases "reached_limiter (fst (geocode_GET s req env))")
  case False
  then show ?thesis using e by (simp add: GET_rateLimitMap)
next
  case True
  show ?thesis
  proof (cases "clientIp req = ip")
    case False
    then show ?thesis
      using True e ip clientIp_nonempty[of req]
      by (simp add: GET_rateLimitMap checkRateLimit_other)
  next
    case same: True
    with t have "t_limit env \<le> resetAt \<lparr>rl_count = k, resetAt = R\<rparr>" by simp
    from checkRateLimit_open[OF ip e this] True same k e show ?thesis
      by (cases "k = 50") (simp_all add: GET_rateLimitMap update_conv')
  qed
qed

lemma serve_window:
  assumes "map_of (rateLimitMap s) ip = Some \<lparr>rl_count = k, resetAt = R\<rparr>"
    and "k \<le> 50" and "ip \<noteq> []"
    and "\<forall>(r, e) \<in> set reqs. clientIp r = ip \<longrightarrow> t_limit e \<le> R"
  shows "map_of (rateLimitMap (fst (serve s reqs))) ip =
           Some \<lparr>rl_count = min 50 (k + accounted ip (zip reqs (snd (serve s reqs)))), resetAt = R\<rparr>"
  using assms
proof (induction reqs arbitrary: s k)
  case Nil
  then show ?case by (simp add: accounted_def)
next
  case (Cons x reqs)
  obtain req env where x: "x = (req, env)" by (cases x)
  let ?g = "geocode_GET s req env"
  let ?k' = "if clientIp req = ip \<and> reached_limiter (fst ?g) then min 50 (k + 1) else k"
  have t: "clientIp req = ip \<longrightarrow> t_limit env \<le> R" using Cons.prems(4) x by simp
  have step: "map_of (rateLimitMap (fst (snd ?g))) ip = Some \<lparr>rl_count = ?k', resetAt = R\<rparr>"
    using GET_entry_step[OF Cons.prems(1) Cons.prems(2) Cons.prems(3) t] .
  have k': "?k' \<le> 50" using Cons.prems(2) by simp
  have rest: "\<forall>(r, e) \<in> set reqs. clientIp r = ip \<longrightarrow> t_limit e \<le> R"
    using Cons.prems(4) by simp
  from Cons.IH[OF step k' Cons.prems(3) rest]
  show ?case
    using x Cons.prems(2) by (simp add: accounted_def Let_def min_def split: if_splits)
qed

subsection \<open>Requests whose upstream call fails, and requests that change nothing\<close>

lemma GET_failure_cache:
  assumes "location req = Some loc" "trim loc \<noteq> []"
    "map_of (geocodeCache s) (toLowerCase (trim loc)) = None" "upstream env = GeoFailure err"
  shows "geocodeCache (fst (snd (geocode_GET s req env))) = geocodeCache s"
    and "reached_limiter (fst (geocode_GET s req env))"
proof -
  have cc: "cacheCheck (t_cache env) (toLowerCase (trim loc)) (geocodeCache s) = (None, geocodeCache s)"
    using assms(3) by (simp add: cacheCheck_def)
  from GET_miss_reaches[OF assms(1,2) cc] show "reached_limiter (fst (geocode_GET s req env))" .
  from assms(2) have "loc \<noteq> []" by auto
  then show "geocodeCache (fst (snd (geocode_GET s req env))) = geocodeCache s"
    using assms cc by (simp add: geocode_GET_def split_beta Let_def)
qed

lemma serve_failures:
  assumes "location req = Some loc" "trim loc \<noteq> []"
    "map_of (geocodeCache s) (toLowerCase (trim loc)) = None" "upstream env = GeoFailure err"
  shows "geocodeCache (fst (serve s (replicate n (req, env)))) = geocodeCache s
       \<and> accounted (clientIp req) (zip (replicate n (req, env)) (snd (serve s (replicate n (req, env))))) = n"
  using assms(3)
proof (induction n arbitrary: s)
  case 0
  then show ?case by (simp add: accounted_def)
next
  case (Suc n)
  let ?g = "geocode_GET s req env"
  note f = GET_failure_cache[OF assms(1,2) Suc.prems assms(4)]
  have "map_of (geocodeCache (fst (snd ?g))) (toLowerCase (trim loc)) = None"
    using f(1) Suc.prems by simp
  from Suc.IH[OF this] f show ?case
    by (simp add: accounted_def Let_def)
qed

lemma serve_fixed:
  assumes "geocode_GET s req env = (r, s, calls)"
  shows "serve s (replicate n (req, env)) = (s, replicate n r)"
  using assms by (induction n) (simp_all add: Let_def)

lemma paris_first:
  "geocode_GET init_gstate paris_req paris_env =
     (\<lparr>status = 200, retry_after_header = None,
       body = GeocodedBody '' Paris '' 2 48 ''Paris, France'' False\<rparr>,
      paris_state, ['' Paris ''])"
  by code_simp

lemma paris_again:
  "geocode_GET paris_state paris_req paris_env =
     (\<lparr>status = 200, retry_after_header = None,
       body = GeocodedBody '' Paris '' 2 48 ''Paris, France'' True\<rparr>,
      paris_state, [])"
  by code_simp

subsection \<open>The claims\<close>

text \<open>
  C7. A geocode request whose \<open>location\<close> parameter is absent, empty or made of white
  space only is answered with status 400 and the body
  \<open>{error: "location parameter is required"}\<close>; the cache and the rate-limit table are
  left as they were (nothing is read from or counted in them) and \<open>geocodeWithRetry\<close> is
  not called.
\<close>

theorem geocode_missing_location:
  assumes "location req = None \<or> (\<exists>loc. location req = Some loc \<and> (\<forall>c \<in> set loc. is_space c))"
  shows "geocode_GET s req env =
           (\<lparr>status = 400, retry_after_header = None,
             body = ErrorBody ''location parameter is required''\<rparr>, s, [])"
proof -
  from assms have "location req = None \<or> (\<exists>loc. location req = Some loc \<and> trim loc = [])"
    by (auto simp: trim_all_space)
  from GET_bad[OF this] show ?thesis by (simp add: bad_request_def)
qed

theorem geocode_missing_location_witness:
  "geocode_GET paris_state \<lparr>location = Some [CHR '' '', CHR 0x09], x_forwarded_for = None, x_real_ip = None\<rparr> paris_env
     = (\<lparr>status = 400, retry_after_header = None,
         body = ErrorBody ''location parameter is required''\<rparr>, paris_state, [])
   \<and> geocode_GET paris_state \<lparr>location = None, x_forwarded_for = None, x_real_ip = None\<rparr> paris_env
     = (\<lparr>status = 400, retry_after_header = None,
         body = ErrorBody ''location parameter is required''\<rparr>, paris_state, [])"
  using geocode_missing_location[of "\<lparr>location = Some [CHR '' '', CHR 0x09], x_forwarded_for = None, x_real_ip = None\<rparr>"
          paris_state paris_env]
        geocode_missing_location[of "\<lparr>location = None, x_forwarded_for = None, x_real_ip = None\<rparr>"
          paris_state paris_env]
  by (simp add: is_space_def)

text \<open>
  C10. In any state the process can be in, a request whose trimmed, lower-cased location
  has a cache entry younger than 24 hours is answered with status 200, \<open>cached: true\<close>
  and the stored coordinates. The state is unchanged, so the client's rate-limit count
  is not incremented; the status is not 429; \<open>geocodeWithRetry\<close> is not called.
\<close>

theorem geocode_cache_hit:
  assumes "reachable s"
    and "location req = Some loc"
    and "map_of (geocodeCache s) (toLowerCase (trim loc)) = Some e"
    and "t_cache env - ce_timestamp e < 24 * 60 * 60 * 1000"
  shows "geocode_GET s req env =
           (\<lparr>status = 200, retry_after_header = None,
             body = GeocodedBody loc (lon e) (lat e) (display_name e) True\<rparr>, s, [])"
proof -
  from assms(3) have mem: "toLowerCase (trim loc) \<in> fst ` set (geocodeCache s)"
    by (metis domI dom_map_of_conv_image_fst)
  have ne: "[] \<notin> fst ` set (geocodeCache s)" by (rule reachable_keys[OF assms(1)])
  have "toLowerCase (trim loc) \<noteq> []"
  proof
    assume "toLowerCase (trim loc) = []"
    with mem ne show False by simp
  qed
  then have "trim loc \<noteq> []" by (simp add: toLowerCase_Nil)
  from cache_hit_step[OF assms(2) this assms(3)] assms(4) show ?thesis
    by (simp add: CACHE_TTL_def)
qed

theorem geocode_cache_hit_witness:
  "geocode_GET paris_state
      \<lparr>location = Some ''PARIS'', x_forwarded_for = None, x_real_ip = Some ''10.9.9.9''\<rparr>
      \<lparr>t_cache = 86400000, t_limit = 86400000, t_store = 86400000, upstream = GeoFailure None\<rparr>
     = (\<lparr>status = 200, retry_after_header = None,
         body = GeocodedBody ''PARIS'' 2 48 ''Paris, France'' True\<rparr>, paris_state, [])"
proof -
  have r: "reachable paris_state" using r_GET[OF r_init paris_first] .
  have k: "toLowerCase (trim ''PARIS'') = ''paris''" by code_simp
  show ?thesis
    using geocode_cache_hit[OF r, of
        "\<lparr>location = Some ''PARIS'', x_forwarded_for = None, x_real_ip = Some ''10.9.9.9''\<rparr>"
        "''PARIS''"
        "\<lparr>lat = 48, lon = 2, display_name = ''Paris, France'', ce_timestamp = 1005\<rparr>"
        "\<lparr>t_cache = 86400000, t_limit = 86400000, t_store = 86400000, upstream = GeoFailure None\<rparr>"]
    by (simp add: k paris_state_def)
qed

text \<open>
  C6, as the code has it. A client opens a window with a request that reaches the rate
  limiter when its table entry is absent or expired. If, among the requests served
  after it (from any client), 49 more of that client's reach the limiter, all within
  the window, then the client's next request in the window that reaches the limiter
  (one that is neither rejected with 400 nor answered from the cache) gets status 429
  with the \<open>Retry-After\<close> header set to the seconds left in the window, rounded up;
  \<open>geocodeWithRetry\<close> is not called and the rate-limit table is not changed.
\<close>

theorem rate_limit_51st:
  assumes first: "clientIp req0 = ip" "reached_limiter (fst (geocode_GET s req0 env0))"
      "case map_of (rateLimitMap s) ip of None \<Rightarrow> True | Some l \<Rightarrow> t_limit env0 > resetAt l"
    and mid: "\<forall>(r, e) \<in> set reqs. clientIp r = ip \<longrightarrow> t_limit e \<le> t_limit env0 + 60000"
      "accounted ip (zip reqs (snd (serve (fst (snd (geocode_GET s req0 env0))) reqs))) = 49"
    and s1: "s1 = fst (serve (fst (snd (geocode_GET s req0 env0))) reqs)"
    and last: "clientIp req = ip" "t_limit env \<le> t_limit env0 + 60000"
      "reached_limiter (fst (geocode_GET s1 req env))"
  shows "status (fst (geocode_GET s1 req env)) = 429
       \<and> retry_after_header (fst (geocode_GET s1 req env))
           = Some (ceil_div (t_limit env0 + 60000 - t_limit env) 1000)
       \<and> snd (snd (geocode_GET s1 req env)) = []
       \<and> rateLimitMap (fst (snd (geocode_GET s1 req env))) = rateLimitMap s1"
proof -
  let ?R = "t_limit env0 + RATE_LIMIT_WINDOW"
  let ?s0 = "fst (snd (geocode_GET s req0 env0))"
  have W: "RATE_LIMIT_WINDOW = 60000" by (simp add: RATE_LIMIT_WINDOW_def)
  have ip: "ip \<noteq> []" using first(1) clientIp_nonempty[of req0] by simp
  have "rateLimitMap ?s0 = snd (checkRateLimit (t_limit env0) ip (rateLimitMap s))"
    using first(1,2) by (simp add: GET_rateLimitMap)
  also have "\<dots> = AList.update ip \<lparr>rl_count = 1, resetAt = ?R\<rparr> (rateLimitMap s)"
    using checkRateLimit_fresh[OF ip first(3)] by simp
  finally have e0: "map_of (rateLimitMap ?s0) ip = Some \<lparr>rl_count = 1, resetAt = ?R\<rparr>"
    by (simp add: update_conv')
  have m: "\<forall>(r, e) \<in> set reqs. clientIp r = ip \<longrightarrow> t_limit e \<le> ?R"
    using mid(1) W by simp
  have "map_of (rateLimitMap s1) ip = Some \<lparr>rl_count = min 50 (1 + 49), resetAt = ?R\<rparr>"
    using serve_window[OF e0 _ ip m] mid(2) s1 by simp
  then have e1: "map_of (rateLimitMap s1) ip = Some \<lparr>rl_count = 50, resetAt = ?R\<rparr>" by simp
  have "t_limit env \<le> resetAt \<lparr>rl_count = 50, resetAt = ?R\<rparr>" using last(2) W by simp
  from checkRateLimit_open[OF ip e1 this]
  have rl: "checkRateLimit (t_limit env) (clientIp req) (rateLimitMap s1) =
      (\<lparr>allowed = False, retryAfter = Some (ceil_div (?R - t_limit env) 1000)\<rparr>, rateLimitMap s1)"
    using last(1) by simp
  from GET_limited[OF last(3) rl] show ?thesis using W by auto
qed

theorem rate_limit_51st_witness:
  "status (fst (geocode_GET
      (fst (serve (fst (snd (geocode_GET init_gstate nowhere_req (nowhere_env 1000))))
                  (replicate 49 (nowhere_req, nowhere_env 2000))))
      nowhere_req (nowhere_env 3000))) = 429
   \<and> retry_after_header (fst (geocode_GET
      (fst (serve (fst (snd (geocode_GET init_gstate nowhere_req (nowhere_env 1000))))
                  (replicate 49 (nowhere_req, nowhere_env 2000))))
      nowhere_req (nowhere_env 3000))) = Some 58"
proof -
  let ?s0 = "fst (snd (geocode_GET init_gstate nowhere_req (nowhere_env 1000)))"
  let ?reqs = "replicate 49 (nowhere_req, nowhere_env 2000)"
  let ?s1 = "fst (serve ?s0 ?reqs)"
  have loc: "location nowhere_req = Some ''Nowhere''" "trim ''Nowhere'' \<noteq> []"
    by (simp_all add: nowhere_req_def trim_def is_space_def)
  have up: "\<And>t. upstream (nowhere_env t) = GeoFailure (Some ''Location not found'')"
    by (simp add: nowhere_env_def)
  have ip: "clientIp nowhere_req = ''10.0.0.1''"
    by (simp add: clientIp_def nowhere_req_def)
  have c0: "map_of (geocodeCache init_gstate) (toLowerCase (trim ''Nowhere'')) = None"
    by (simp add: init_gstate_def)
  note g0 = GET_failure_cache[OF loc c0 up[of 1000]]
  have c1: "map_of (geocodeCache ?s0) (toLowerCase (trim ''Nowhere'')) = None"
    using g0(1) c0 by simp
  note sv = serve_failures[OF loc c1 up[of 2000], of 49]
  have c2: "map_of (geocodeCache ?s1) (toLowerCase (trim ''Nowhere'')) = None"
    using sv c1 by simp
  note g2 = GET_failure_cache[OF loc c2 up[of 3000]]
  have h1: "case map_of (rateLimitMap init_gstate) ''10.0.0.1'' of None \<Rightarrow> True
            | Some l \<Rightarrow> t_limit (nowhere_env 1000) > resetAt l"
    by (simp add: init_gstate_def)
  have h2: "\<forall>(r, e) \<in> set ?reqs. clientIp r = ''10.0.0.1'' \<longrightarrow>
              t_limit e \<le> t_limit (nowhere_env 1000) + 60000"
    by (simp add: nowhere_env_def)
  have h3: "accounted ''10.0.0.1'' (zip ?reqs (snd (serve ?s0 ?reqs))) = 49"
    using sv ip by simp
  have h4: "t_limit (nowhere_env 3000) \<le> t_limit (nowhere_env 1000) + 60000"
    by (simp add: nowhere_env_def)
  from rate_limit_51st[OF ip g0(2) h1 h2 h3 refl ip h4 g2(2)]
  show ?thesis by (simp add: nowhere_env_def ceil_div_def)
qed

text \<open>
  C6 as it is written fails when requests are answered from the cache: of 51 requests
  for the same place from one client at the same instant, the first calls upstream and
  fills the cache, and the 51st is answered 200 from the cache, not 429.
\<close>

theorem rate_limit_cached_counterexample:
  "last (snd (serve init_gstate ((paris_req, paris_env) # replicate 50 (paris_req, paris_env))))
     = \<lparr>status = 200, retry_after_header = None,
        body = GeocodedBody '' Paris '' 2 48 ''Paris, France'' True\<rparr>
   \<and> length ((paris_req, paris_env) # replicate 50 (paris_req, paris_env)) = 51
   \<and> clientIp paris_req = ''10.0.0.1''"
proof -
  have "clientIp paris_req = ''10.0.0.1''" by (simp add: clientIp_def paris_req_def)
  then show ?thesis
    using serve_fixed[OF paris_again, of 50] by (simp add: paris_first Let_def)
qed


section \<open>Properties of the discovery endpoint\<close>

subsection \<open>The cache lookup\<close>

lemma most_recent_mem: "most_recent qs = Some q \<Longrightarrow> q \<in> set qs"
proof (induction qs arbitrary: q)
  case Nil
  then show ?case by simp
next
  case (Cons a qs)
  show ?case
  proof (cases "most_recent qs")
    case None
    with Cons.prems show ?thesis by simp
  next
    case (Some r)
    with Cons.IH[of r] Cons.prems show ?thesis by (auto split: if_splits)
  qed
qed

lemma most_recent_None: "most_recent qs = None \<longleftrightarrow> qs = []"
  by (cases qs) (auto split: option.splits)

lemma most_recent_max: "most_recent qs = Some q \<Longrightarrow> r \<in> set qs \<Longrightarrow> q_timestamp r \<le> q_timestamp q"
proof (induction qs arbitrary: q)
  case Nil
  then show ?case by simp
next
  case (Cons a qs)
  show ?case
  proof (cases "most_recent qs")
    case None
    then have "qs = []" by (simp add: most_recent_None)
    with None Cons.prems show ?thesis by simp
  next
    case (Some m)
    from Cons.IH[OF Some] have ih: "r \<in> set qs \<Longrightarrow> q_timestamp r \<le> q_timestamp m" .
    show ?thesis
    proof (cases "q_timestamp m > q_timestamp a")
      case True
      with Some Cons.prems have "q = m" by simp
      with True ih Cons.prems(2) show ?thesis by auto
    next
      case False
      with Some Cons.prems have "q = a" by simp
      with False ih Cons.prems(2) show ?thesis by auto
    qed
  qed
qed

text \<open>
  C5. When the cache lookup of a run returns a record, the record has the normalized
  key that was asked for, its refresh timestamp is later than six hours before the
  clock reading, and the events it carries are exactly those linked events whose own
  timestamp is later than seven days before the clock reading: an older event is not
  returned although its record is fresh. The record is the most recent fresh one for
  the key.
\<close>

theorem cache_lookup_windows:
  assumes "cacheLookup nowSix nowSeven key table = Some cq"
  shows "q_normalizedKey cq = key
       \<and> q_timestamp cq > nowSix - 6 * 60 * 60 * 1000
       \<and> (\<forall>i \<in> set (q_items cq). row_timestamp i > nowSeven - 7 * 24 * 60 * 60 * 1000)
       \<and> (\<exists>q \<in> set table. q_id cq = q_id q \<and> q_timestamp cq = q_timestamp q
              \<and> q_items cq = filter (\<lambda>i. row_timestamp i > nowSeven - 7 * 24 * 60 * 60 * 1000) (q_items q)
              \<and> (\<forall>r \<in> set table. q_normalizedKey r = key \<and> q_timestamp r > nowSix - 6 * 60 * 60 * 1000
                     \<longrightarrow> q_timestamp r \<le> q_timestamp q))"
proof -
  let ?fresh = "filter (\<lambda>q. q_normalizedKey q = key \<and> q_timestamp q > nowSix - 21600000) table"
  from assms obtain q where mr: "most_recent ?fresh = Some q"
    and cq: "cq = q\<lparr>q_items := filter (\<lambda>i. row_timestamp i > nowSeven - 604800000) (q_items q)\<rparr>"
    by (auto simp: cacheLookup_def findCached_def split: option.splits)
  from most_recent_mem[OF mr]
  have q: "q \<in> set table" "q_normalizedKey q = key" "q_timestamp q > nowSix - 21600000"
    by auto
  have mx: "\<forall>r \<in> set table. q_normalizedKey r = key \<and> q_timestamp r > nowSix - 21600000
                     \<longrightarrow> q_timestamp r \<le> q_timestamp q"
    using most_recent_max[OF mr] by auto
  show ?thesis using q mx cq by auto
qed

theorem cache_lookup_windows_witness:
  "cacheLookup 1000000000 1000000000 ''Global News'' cache_table
     = Some \<lparr>q_id = ''q1'', q_normalizedKey = ''Global News'', q_timestamp = 999999000, q_items = [recent_row]\<rparr>
   \<and> row_timestamp old_row \<le> 1000000000 - 7 * 24 * 60 * 60 * 1000
   \<and> row_timestamp recent_row > 1000000000 - 7 * 24 * 60 * 60 * 1000
   \<and> (999999000::int) > 1000000000 - 6 * 60 * 60 * 1000"
proof -
  have w: "cacheLookup 1000000000 1000000000 ''Global News'' cache_table
     = Some \<lparr>q_id = ''q1'', q_normalizedKey = ''Global News'', q_timestamp = 999999000, q_items = [recent_row]\<rparr>"
    by code_simp
  from cache_lookup_windows[OF w] show ?thesis using w by (simp add: old_row_def recent_row_def)
qed


subsection \<open>What the primitive steps do to the state\<close>

lemma safeEnqueue_fields [simp]:
  "existingHeadlines (safeEnqueue env f st) = existingHeadlines st"
  "fetchedCount (safeEnqueue env f st) = fetchedCount st"
  "enq_calls (safeEnqueue env f st) = enq_calls st + 1"
  by (simp_all add: safeEnqueue_def)

lemma safeEnqueue_trace:
  "trace (safeEnqueue env f st) = trace st @ (if isActive env st then [Enqueue f] else [])"
  by (simp add: safeEnqueue_def)

lemma isActive_connected [simp]: "abort_after env = None \<Longrightarrow> isActive env st"
  by (simp add: isActive_def)

lemma record_db_fields [simp]:
  "existingHeadlines (record_db as st) = existingHeadlines st"
  "fetchedCount (record_db as st) = fetchedCount st"
  "enq_calls (record_db as st) = enq_calls st"
  "trace (record_db as st) = trace st @ as"
  by (simp_all add: record_db_def)

lemma replayed_Nil [simp]: "replayed env k [] = []"
  by (simp add: replayed_def)

lemma replayed_Cons:
  "replayed env k (item # items) =
     (case row_coordinates item of
        Inl m \<Rightarrow> []
      | Inr c \<Rightarrow> [cachedNewsItem (replay_clock env k) item c])
     @ replayed env (Suc k) items"
  by (simp add: replayed_def enumerate_simps)

subsection \<open>Invariants of the loops\<close>

declare discoverLoop.simps [simp del]

lemma processCalls_inv:
  assumes "P (fst acc)"
    and "\<And>ce acc. ce \<in> set ces \<Longrightarrow> P (fst acc) \<Longrightarrow> P (fst (processCandidate env sda ce acc))"
  shows "P (fst (processCalls env sda ces acc))"
  using assms
proof (induction ces arbitrary: acc)
  case Nil
  then show ?case by simp
next
  case (Cons ce ces)
  have "P (fst (processCandidate env sda ce acc))" using Cons.prems by simp
  then show ?case using Cons.IH Cons.prems(2) by simp
qed

lemma doRound_inv:
  assumes "P st"
    and enq: "\<And>m st. P st \<Longrightarrow> P (safeEnqueue env (Status m) st)"
    and cand: "\<And>ce acc. ce \<in> set (calls_of (grok renv)) \<Longrightarrow> P (fst acc)
                 \<Longrightarrow> P (fst (processCandidate env sda ce acc))"
    and link: "\<And>ids st. P st \<Longrightarrow> P (linkItems renv cq rq nk ids st)"
  shows "P (round_state (doRound env sda cq rq nk fc a renv st))"
proof -
  define st1 where "st1 = (if a > 1 then safeEnqueue env (Status (ScanningMore (fetchedCount st) fc)) st else st)"
  have p1: "P st1" using assms(1) enq by (simp add: st1_def)
  have unfold: "doRound env sda cq rq nk fc a renv st =
     (case grok renv of
           GrokThrows \<Rightarrow> NextRound st1
         | NoReader \<Rightarrow> BreakLoop st1
         | ReadThrows \<Rightarrow> NextRound st1
         | ToolCalls calls \<Rightarrow>
             NextRound (linkItems renv cq rq nk (snd (processCalls env sda calls (st1, [])))
                          (fst (processCalls env sda calls (st1, [])))))"
    by (simp add: doRound_def st1_def Let_def split: prod.splits grok_response.splits)
  show ?thesis
  proof (cases "grok renv")
    case (ToolCalls calls)
    have "P (fst (processCalls env sda calls (st1, [])))"
      by (rule processCalls_inv) (use p1 cand ToolCalls in \<open>simp_all add: calls_of_def\<close>)
    then show ?thesis using ToolCalls link by (simp add: unfold)
  qed (use p1 in \<open>simp_all add: unfold\<close>)
qed

lemma discoverLoop_inv:
  assumes "P st"
    and "\<And>m st. P st \<Longrightarrow> P (safeEnqueue env (Status m) st)"
    and "\<And>a ce acc. ce \<in> set (calls_of (grok (rounds env a))) \<Longrightarrow> P (fst acc)
                 \<Longrightarrow> P (fst (processCandidate env sda ce acc))"
    and "\<And>a ids st. P st \<Longrightarrow> P (linkItems (rounds env a) cq rq nk ids st)"
  shows "P (discoverLoop env sda cq rq nk fc a st)"
  using assms
proof (induction env sda cq rq nk fc a st rule: discoverLoop.induct)
  case (1 env sda cq rq nk fc a st)
  show ?case
  proof (cases "loop_continues (fetchedCount st) fc a (elapsed (rounds env a))")
    case False
    then show ?thesis using "1.prems"(1) by (subst discoverLoop.simps) simp
  next
    case True
    let ?r = "doRound env sda cq rq nk fc (a + 1) (rounds env a) st"
    have pr: "P (round_state ?r)"
      by (rule doRound_inv) (use "1.prems" in auto)
    show ?thesis
    proof (cases ?r)
      case (NextRound st')
      with pr have "P st'" by simp
      from "1.IH"[OF True NextRound this "1.prems"(2,3,4)] show ?thesis
        using True NextRound by (subst discoverLoop.simps) simp
    next
      case (BreakLoop st')
      with pr show ?thesis using True by (subst discoverLoop.simps) simp
    qed
  qed
qed


subsection \<open>No terminal frame before the end\<close>

lemma frames_append [simp]: "frames (xs @ ys) = frames xs @ frames ys"
  by (simp add: frames_def)

lemma frames_simps [simp]:
  "frames [] = []"
  "frames (Enqueue f # as) = f # frames as"
  "frames (CacheLookup r # as) = frames as"
  "frames (DbCreate n ok # as) = frames as"
  "frames (DbFindFirst h l fr # as) = frames as"
  "frames (QueryFindFirst k fr # as) = frames as"
  "frames (QueryUpdate i ids b ok # as) = frames as"
  "frames (QueryCreate oq k ids ok # as) = frames as"
  by (simp_all add: frames_def)

lemma no_terminal_enq:
  "no_terminal st \<Longrightarrow> \<not> terminal f \<Longrightarrow> no_terminal (safeEnqueue env f st)"
  by (simp add: no_terminal_def safeEnqueue_trace)

lemma no_terminal_upd [simp]:
  "no_terminal (st\<lparr>existingHeadlines := hs\<rparr>) = no_terminal st"
  "no_terminal (st\<lparr>fetchedCount := n\<rparr>) = no_terminal st"
  by (simp_all add: no_terminal_def)

lemma no_terminal_db:
  "no_terminal st \<Longrightarrow> frames as = [] \<Longrightarrow> no_terminal (record_db as st)"
  by (simp add: no_terminal_def)

lemma no_terminal_persist:
  "no_terminal (fst acc) \<Longrightarrow> no_terminal (fst (persist ce n acc))"
  by (cases acc) (simp add: persist_def Let_def no_terminal_db split: find_result.splits)

lemma no_terminal_candidate:
  "no_terminal (fst acc) \<Longrightarrow> no_terminal (fst (processCandidate env sda ce acc))"
  by (cases acc)
     (auto simp: processCandidate_def Let_def no_terminal_enq no_terminal_persist
           split: option.splits sum.splits prod.splits)

lemma no_terminal_link:
  "no_terminal st \<Longrightarrow> no_terminal (linkItems renv cq rq nk ids st)"
  by (simp add: linkItems_def no_terminal_db split: option.splits find_result.splits)

lemma no_terminal_loop:
  "no_terminal st \<Longrightarrow> no_terminal (discoverLoop env sda cq rq nk fc a st)"
  by (rule discoverLoop_inv) (simp_all add: no_terminal_enq no_terminal_candidate no_terminal_link)

lemma no_terminal_replay:
  "no_terminal st \<Longrightarrow> no_terminal (snd (replay env k items st))"
  by (induction items arbitrary: st k) (simp_all add: Let_def no_terminal_enq split: sum.splits)

lemma replay_throws:
  "fst (replay env k items st) = None \<longleftrightarrow> \<not> list_ex (\<lambda>i. isl (row_coordinates i)) items"
  by (induction items arbitrary: st k) (simp_all add: Let_def split: sum.splits)


lemma replayCached_throws:
  "fst (replayCached env nk cqo st) = None \<longleftrightarrow>
     \<not> list_ex (\<lambda>i. isl (row_coordinates i)) (case cqo of None \<Rightarrow> [] | Some cq \<Rightarrow> q_items cq)"
proof (cases cqo)
  case None
  then show ?thesis by (simp add: replayCached_def)
next
  case (Some cq)
  then show ?thesis using replay_throws[of env 0 "q_items cq"]
    by (cases "q_items cq = []") (simp_all add: replayCached_def)
qed

lemma no_terminal_replayCached:
  "no_terminal st \<Longrightarrow> no_terminal (snd (replayCached env nk cqo st))"
  by (simp add: replayCached_def no_terminal_replay no_terminal_enq split: option.splits)

lemma no_terminal_fetchFresh:
  "no_terminal st \<Longrightarrow> no_terminal (fetchFresh env rq nk sc cqo st)"
  by (simp add: fetchFresh_def Let_def no_terminal_loop no_terminal_enq)

lemma streamBody_unfold:
  "streamBody env q st0 =
     (case db_searchQuery env of
        Inl m \<Rightarrow> (Some (Exn m), safeEnqueue env (Status Analyzing) st0)
      | Inr table \<Rightarrow>
          let nk = fst (normalizeQuery q (normalize_response env));
              sc = snd (normalizeQuery q (normalize_response env));
              cqo = cachedQueryOf env q;
              r = replayCached env nk cqo (record_db [CacheLookup cqo] (safeEnqueue env (Status Analyzing) st0))
          in if fst r \<noteq> None then r
             else (None, safeEnqueue env Complete (fetchFresh env q nk sc cqo (snd r))))"
proof (cases "db_searchQuery env")
  case (Inl m)
  then show ?thesis by (simp add: streamBody_def Let_def split_beta)
next
  case (Inr table)
  let ?nk = "fst (normalizeQuery q (normalize_response env))"
  let ?cqo = "cachedQueryOf env q"
  let ?r = "replayCached env ?nk ?cqo (record_db [CacheLookup ?cqo] (safeEnqueue env (Status Analyzing) st0))"
  have c: "cacheLookup (now_six env) (now_seven env) ?nk table = ?cqo"
    using Inr by (simp add: cachedQueryOf_def)
  obtain e st3 where r: "?r = (e, st3)" by (cases ?r)
  show ?thesis using Inr c r
    by (cases e) (simp_all add: streamBody_def Let_def split_beta)
qed

lemma streamBody_throws:
  assumes "setup_throws env q" "no_terminal st0"
  shows "fst (streamBody env q st0) \<noteq> None \<and> no_terminal (snd (streamBody env q st0))"
proof (cases "db_searchQuery env")
  case (Inl m)
  then show ?thesis using assms(2) by (simp add: streamBody_unfold no_terminal_enq)
next
  case (Inr table)
  let ?nk = "fst (normalizeQuery q (normalize_response env))"
  let ?cqo = "cachedQueryOf env q"
  let ?st2 = "record_db [CacheLookup ?cqo] (safeEnqueue env (Status Analyzing) st0)"
  have nt: "no_terminal ?st2" using assms(2) by (simp add: no_terminal_enq no_terminal_db)
  from assms(1) Inr have "\<not> fst (replayCached env ?nk ?cqo ?st2) = None"
    unfolding replayCached_throws by (simp add: setup_throws_def cached_items_def)
  then show ?thesis using Inr no_terminal_replayCached[OF nt, of env ?nk ?cqo]
    by (simp add: streamBody_unfold Let_def)
qed

lemma streamBody_completes:
  assumes "\<not> setup_throws env q" "no_terminal st0"
  shows "\<exists>st5. streamBody env q st0 = (None, safeEnqueue env Complete st5) \<and> no_terminal st5"
proof -
  from assms(1) obtain table where Some: "db_searchQuery env = Inr table"
    by (cases "db_searchQuery env") (auto simp: setup_throws_def)
  let ?nk = "fst (normalizeQuery q (normalize_response env))"
  let ?sc = "snd (normalizeQuery q (normalize_response env))"
  let ?cqo = "cachedQueryOf env q"
  let ?st2 = "record_db [CacheLookup ?cqo] (safeEnqueue env (Status Analyzing) st0)"
  let ?r = "replayCached env ?nk ?cqo ?st2"
  have nt: "no_terminal ?st2" using assms(2) by (simp add: no_terminal_enq no_terminal_db)
  from assms(1) have f: "fst ?r = None"
    unfolding replayCached_throws by (simp add: setup_throws_def cached_items_def)
  have "no_terminal (fetchFresh env q ?nk ?sc ?cqo (snd ?r))"
    by (rule no_terminal_fetchFresh) (rule no_terminal_replayCached[OF nt])
  moreover have "streamBody env q st0 = (None, safeEnqueue env Complete (fetchFresh env q ?nk ?sc ?cqo (snd ?r)))"
    using Some f by (simp add: streamBody_unfold Let_def)
  ultimately show ?thesis by blast
qed


subsection \<open>An invariant rule for a whole run\<close>

lemma start_inv:
  assumes init: "P init_dstate"
    and enq: "\<And>f st. P st \<Longrightarrow> (\<forall>n. f \<noteq> News n) \<Longrightarrow> P (safeEnqueue env f st)"
    and lookup: "\<And>st. P st \<Longrightarrow> P (record_db [CacheLookup (cachedQueryOf env q)] st)"
    and replay: "\<And>st nk. P st \<Longrightarrow> existingHeadlines st = []
                   \<Longrightarrow> P (snd (replayCached env nk (cachedQueryOf env q) st))"
    and fresh: "\<And>st nk sc. P st \<Longrightarrow> P (fetchFresh env q nk sc (cachedQueryOf env q) st)"
  shows "P (start env q)"
proof -
  let ?st0 = "safeEnqueue env Connected init_dstate"
  let ?st1 = "safeEnqueue env (Status Analyzing) ?st0"
  have i1: "P ?st1" by (intro enq init) simp_all
  have e1: "existingHeadlines ?st1 = []" by (simp add: init_dstate_def)
  have "P (snd (streamBody env q ?st0))"
  proof (cases "db_searchQuery env")
    case (Inl m)
    then show ?thesis using i1 by (simp add: streamBody_unfold)
  next
    case (Inr table)
    let ?nk = "fst (normalizeQuery q (normalize_response env))"
    let ?sc = "snd (normalizeQuery q (normalize_response env))"
    let ?cqo = "cachedQueryOf env q"
    let ?st2 = "record_db [CacheLookup ?cqo] ?st1"
    let ?r = "replayCached env ?nk ?cqo ?st2"
    have i2: "P ?st2" using i1 by (rule lookup)
    have ir: "P (snd ?r)" by (rule replay[OF i2]) (simp add: init_dstate_def)
    have "P (safeEnqueue env Complete (fetchFresh env q ?nk ?sc ?cqo (snd ?r)))"
      by (intro enq fresh ir) simp
    then show ?thesis using Inr ir by (simp add: streamBody_unfold Let_def)
  qed
  then show ?thesis
    by (cases "streamBody env q ?st0")
       (auto simp: start_def enq split: option.splits exn.splits)
qed


subsection \<open>The terminal frame\<close>

text \<open>
  C4, as the code has it. When the client stays connected, the frames of a run end with
  exactly one terminal frame and no terminal frame comes before it: \<open>complete\<close> when no
  exception reaches the \<open>catch\<close> of \<open>start\<close>, and \<open>error\<close> when one does (the cache
  lookup rejects, or the coordinates of a replayed row do not parse); on that path no
  \<open>complete\<close> frame is emitted. In every run, connected or not, there is at most one
  terminal frame and nothing follows it.
\<close>

theorem stream_terminal_frame:
  "(abort_after env = None \<longrightarrow>
      (\<exists>pre f. frames (trace (start env q)) = pre @ [f] \<and> (\<forall>g \<in> set pre. \<not> terminal g)
          \<and> (if setup_throws env q then (\<exists>m. f = ErrorFrame m) else f = Complete)))
   \<and> (\<exists>pre. (\<forall>g \<in> set pre. \<not> terminal g)
          \<and> (frames (trace (start env q)) = pre
             \<or> (\<exists>f. frames (trace (start env q)) = pre @ [f] \<and> terminal f)))"
proof -
  let ?st0 = "safeEnqueue env Connected init_dstate"
  have nt0: "no_terminal ?st0"
    by (rule no_terminal_enq) (simp_all add: no_terminal_def init_dstate_def)
  show ?thesis
  proof (cases "setup_throws env q")
    case True
    from streamBody_throws[OF True nt0] obtain m st where
      r: "streamBody env q ?st0 = (Some (Exn m), st)" and nt: "no_terminal st"
      by (cases "streamBody env q ?st0"; cases "fst (streamBody env q ?st0)") (auto, metis exn.exhaust)
    have st: "start env q = safeEnqueue env (ErrorFrame m) st"
      by (simp add: start_def r)
    show ?thesis using nt True
      by (auto simp: st safeEnqueue_trace no_terminal_def)
  next
    case False
    from streamBody_completes[OF False nt0] obtain st5 where
      r: "streamBody env q ?st0 = (None, safeEnqueue env Complete st5)" and nt: "no_terminal st5"
      by blast
    have st: "start env q = safeEnqueue env Complete st5"
      by (simp add: start_def r)
    show ?thesis using nt False
      by (auto simp: st safeEnqueue_trace no_terminal_def)
  qed
qed

theorem stream_terminal_frame_witness:
  "abort_after (mk_env (Some []) []) = None \<and> \<not> setup_throws (mk_env (Some []) []) []
   \<and> (\<exists>pre. frames (trace (start (mk_env (Some []) []) [])) = pre @ [Complete]
            \<and> (\<forall>g \<in> set pre. \<not> terminal g))"
proof -
  have a: "abort_after (mk_env (Some []) []) = None" by (simp add: mk_env_def)
  have b: "\<not> setup_throws (mk_env (Some []) []) []" by code_simp
  from stream_terminal_frame[of "mk_env (Some []) []" "[]"] a b show ?thesis by auto
qed

text \<open>
  C4 as it is written fails on the path it names: when the cache lookup rejects, the
  exception is caught, an \<open>error\<close> frame is emitted and the stream is closed without a
  \<open>complete\<close> frame.
\<close>

theorem complete_missing_counterexample:
  "frames (trace (start (mk_env None []) [])) = [Connected, Status Analyzing, ErrorFrame ''PrismaClientError'']"
  by code_simp


subsection \<open>News frames and persistence\<close>

lemma news_ok_append:
  "news_ok C xs \<Longrightarrow> news_ok C ys \<Longrightarrow> news_ok C (xs @ ys)"
proof (induction C xs rule: news_ok.induct)
  case (2 C n as)
  then show ?case by (cases as) (auto split: action.splits list.splits)
qed simp_all

lemma nk_inv_upd [simp]:
  "nk_inv C (st\<lparr>existingHeadlines := hs\<rparr>) = nk_inv C st"
  "nk_inv C (st\<lparr>fetchedCount := k\<rparr>) = nk_inv C st"
  by (simp_all add: nk_inv_def)

lemma nk_inv_ext:
  "nk_inv C st \<Longrightarrow> trace st' = trace st @ ext \<Longrightarrow> news_ok C ext \<Longrightarrow> nk_inv C st'"
  by (simp add: nk_inv_def news_ok_append)

lemma nk_inv_enq:
  "nk_inv C st \<Longrightarrow> (\<forall>n. f = News n \<longrightarrow> n \<in> set C) \<Longrightarrow> nk_inv C (safeEnqueue env f st)"
  by (rule nk_inv_ext[where ext = "if isActive env st then [Enqueue f] else []"])
     (cases f; simp add: safeEnqueue_trace)+

lemma nk_inv_db:
  "nk_inv C st \<Longrightarrow> news_ok C as \<Longrightarrow> nk_inv C (record_db as st)"
  by (rule nk_inv_ext[where ext = as]) simp_all

lemma nk_inv_link: "nk_inv C st \<Longrightarrow> nk_inv C (linkItems renv cq rq nk ids st)"
  by (simp add: linkItems_def nk_inv_db split: option.splits find_result.splits)

lemma nk_inv_persist:
  "nk_inv C st \<Longrightarrow> nk_inv C (fst (persist ce n (safeEnqueue env (News n) st, ids)))"
proof -
  assume a: "nk_inv C st"
  let ?new = "(if isActive env st then [Enqueue (News n)] else []) @
              (if \<not> payloadThrows (top_tweets n) \<and> create_ok ce then [DbCreate n True]
               else (if payloadThrows (top_tweets n) then [] else [DbCreate n False])
                    @ [DbFindFirst (headline n) (ni_location n) (find_existing ce)])"
  have t: "trace (fst (persist ce n (safeEnqueue env (News n) st, ids))) = trace st @ ?new"
    by (simp add: persist_def safeEnqueue_trace Let_def split: find_result.splits)
  have "news_ok C ?new" by simp
  from nk_inv_ext[OF a t this] show ?thesis .
qed

lemma nk_inv_candidate:
  assumes "nk_inv C (fst acc)"
  shows "nk_inv C (fst (processCandidate env sda ce acc))"
  using assms
  by (cases acc)
     (auto simp: processCandidate_def Let_def nk_inv_enq nk_inv_persist
           split: option.splits sum.splits)

lemma nk_inv_replay:
  "nk_inv C st \<Longrightarrow> set (replayed env k items) \<subseteq> set C
     \<Longrightarrow> nk_inv C (snd (replay env k items st))"
proof (induction items arbitrary: st k)
  case Nil
  then show ?case by simp
next
  case (Cons item items)
  show ?case
  proof (cases "row_coordinates item")
    case (Inl m)
    then show ?thesis using Cons.prems(1) by simp
  next
    case (Inr coords)
    let ?st2 = "safeEnqueue env (News (cachedNewsItem (replay_clock env k) item coords))
                  (st\<lparr>existingHeadlines := existingHeadlines st @ [row_headline item]\<rparr>)"
    have "nk_inv C ?st2"
      using Cons.prems Inr by (intro nk_inv_enq) (simp_all add: replayed_Cons)
    moreover have "set (replayed env (Suc k) items) \<subseteq> set C"
      using Cons.prems(2) by (simp add: replayed_Cons)
    ultimately show ?thesis using Cons.IH[of ?st2 "Suc k"] Inr by (simp add: Let_def)
  qed
qed

lemma nk_inv_replayCached:
  assumes "nk_inv C st"
    "set (replayed env 0 (case cqo of None \<Rightarrow> [] | Some cq \<Rightarrow> q_items cq)) \<subseteq> set C"
  shows "nk_inv C (snd (replayCached env nk cqo st))"
  using assms
  by (cases cqo) (simp_all add: replayCached_def nk_inv_replay nk_inv_enq)

lemma nk_inv_fetchFresh:
  "nk_inv C st \<Longrightarrow> nk_inv C (fetchFresh env rq nk sc cqo st)"
  unfolding fetchFresh_def Let_def
  by (rule discoverLoop_inv) (simp_all add: nk_inv_enq nk_inv_candidate nk_inv_link)


text \<open>
  C1, as the code has it. Every news frame of a run either replays an event that the
  cache lookup returned from the store, or carries a freshly discovered event and is
  enqueued directly before the persistence attempt for that same event: the
  \<open>newsItem.create\<close> call or, when the payload of that call cannot be built because the
  timestamp of a fetched post does not parse, the recovery lookup by the event's
  headline and location. A fresh event is emitted first and persisted afterwards,
  whether or not the attempt succeeds.
\<close>

theorem news_enqueued_before_create:
  "news_ok (cached_news env q) (trace (start env q))"
proof -
  let ?C = "cached_news env q"
  have "nk_inv ?C (start env q)"
  proof (rule start_inv)
    show "nk_inv ?C init_dstate" by (simp add: nk_inv_def init_dstate_def)
  next
    fix f st assume "nk_inv ?C st" "\<forall>n. f \<noteq> News n"
    then show "nk_inv ?C (safeEnqueue env f st)" by (simp add: nk_inv_enq)
  next
    fix st assume "nk_inv ?C st"
    then show "nk_inv ?C (record_db [CacheLookup (cachedQueryOf env q)] st)"
      by (simp add: nk_inv_db)
  next
    fix st nk assume "nk_inv ?C st"
    then show "nk_inv ?C (snd (replayCached env nk (cachedQueryOf env q) st))"
      by (rule nk_inv_replayCached) (simp add: cached_news_def cached_items_def)
  next
    fix st nk sc assume "nk_inv ?C st"
    then show "nk_inv ?C (fetchFresh env q nk sc (cachedQueryOf env q) st)"
      by (rule nk_inv_fetchFresh)
  qed
  then show ?thesis by (simp add: nk_inv_def)
qed

theorem news_enqueued_before_create_witness:
  "news_ok (cached_news
              (storm_env
                 [mk_cand ''Quake'' ''Tokyo'' NoTimestamp ''u1'' 1000000000 (Some [139, 35]) True FindNone,
                  storm_cand ''Delft'' ''u2'']) [])
           (trace (start
              (storm_env
                 [mk_cand ''Quake'' ''Tokyo'' NoTimestamp ''u1'' 1000000000 (Some [139, 35]) True FindNone,
                  storm_cand ''Delft'' ''u2'']) []))"
  by (rule news_enqueued_before_create)

text \<open>
  C1 as it is written fails: the frame is enqueued before the event is persisted, and
  when \<open>newsItem.create\<close> rejects and the recovery lookup finds no row, the event of an
  emitted frame is never persisted.
\<close>

theorem news_not_persisted_counterexample:
  "trace (start (mk_env (Some [])
                   [mk_cand ''Quake'' ''Tokyo'' NoTimestamp ''u1'' 1000000000 (Some [139, 35]) False FindNone]) [])
     = [Enqueue Connected, Enqueue (Status Analyzing), CacheLookup None,
        Enqueue (Status (Scanning ''global'' 40 20)), Enqueue (Status (Found ''Quake'')),
        Enqueue (News (quake_item ''u1'' ''Tokyo'')),
        DbCreate (quake_item ''u1'' ''Tokyo'') False, DbFindFirst ''Quake'' ''Tokyo'' FindNone,
        Enqueue (Status (ScanningMore 0 20)), Enqueue Complete]
   \<and> \<not> emitted_only_persisted []
         (trace (start (mk_env (Some [])
                   [mk_cand ''Quake'' ''Tokyo'' NoTimestamp ''u1'' 1000000000 (Some [139, 35]) False FindNone]) []))"
  by code_simp


subsection \<open>Headlines within a run\<close>

lemma news_headlines_append [simp]:
  "news_headlines (xs @ ys) = news_headlines xs @ news_headlines ys"
  by (induction xs rule: news_headlines.induct) simp_all

lemma hd_inv_status: "hd_inv st \<Longrightarrow> hd_inv (safeEnqueue env (Status m) st)"
  by (simp add: hd_inv_def safeEnqueue_trace)

lemma hd_inv_db:
  "hd_inv st \<Longrightarrow> news_headlines as = [] \<Longrightarrow> hd_inv (record_db as st)"
  by (simp add: hd_inv_def)

lemma hd_inv_link: "hd_inv st \<Longrightarrow> hd_inv (linkItems renv cq rq nk ids st)"
  by (simp add: linkItems_def hd_inv_db split: option.splits find_result.splits)

lemma hd_inv_news_created:
  assumes "hd_inv st" "h \<notin> set (existingHeadlines st)" "headline n = h"
  shows "hd_inv ((record_db [DbCreate n True] (safeEnqueue env (News n) st))
                  \<lparr>existingHeadlines := existingHeadlines st @ [h], fetchedCount := k\<rparr>)"
  using assms by (auto simp: hd_inv_def safeEnqueue_trace)

lemma hd_inv_candidate:
  assumes "hd_inv (fst acc)" "saved env ce"
  shows "hd_inv (fst (processCandidate env sda ce acc))"
proof (cases acc)
  case (Pair st ids)
  show ?thesis
  proof (cases "parsed ce")
    case None
    then show ?thesis using assms Pair by (simp add: processCandidate_def)
  next
    case (Some args)
    let ?h = "str_or (c_headline args) []"
    let ?l = "str_or (c_location args) []"
    let ?q = "str_or (c_search_query args) []"
    have ok: "create_ok ce" using assms(2) by (simp add: saved_def)
    have built: "\<not> payloadThrows ts"
      if "fetchRealTweets (X_BEARER_TOKEN env) (BEARER_TOKEN env) (x_api ce) ?q (Some ?h) = Inr ts"
        "?q \<noteq> []" for ts
      using assms(2) Some that by (simp add: saved_def tweetsFor_def)
    have built0: "\<not> payloadThrows []" by (simp add: payloadThrows_def)
    show ?thesis
    proof (cases "?h = [] \<or> ?l = [] \<or> ?h \<in> set (existingHeadlines st) \<or> tooOld (c_timestamp args) sda")
      case True
      then show ?thesis using assms Pair Some by (auto simp: processCandidate_def Let_def)
    next
      case False
      let ?st1 = "safeEnqueue env (Status (Found ?h)) st"
      have i1: "hd_inv ?st1" using assms(1) Pair by (simp add: hd_inv_status)
      show ?thesis
      proof (cases "geocoded ce")
        case None
        then show ?thesis using False Pair Some i1 by (simp add: processCandidate_def Let_def)
      next
        case (Some coords)
        have fresh: "\<And>s. hd_inv s \<Longrightarrow> existingHeadlines s = existingHeadlines st \<Longrightarrow>
                  \<not> payloadThrows ts \<Longrightarrow>
                  hd_inv (fst (persist ce (newsItemOf ce args coords ts)
                              (safeEnqueue env (News (newsItemOf ce args coords ts)) s, ids)))" for ts
          using False ok
          by (auto simp: persist_def hd_inv_def safeEnqueue_trace newsItemOf_def)
        show ?thesis
          using False Pair \<open>parsed ce = Some args\<close> Some i1 built built0
          by (auto simp: processCandidate_def Let_def hd_inv_status fresh split: sum.splits)
      qed
    qed
  qed
qed


lemma hd_inv_enq:
  "hd_inv st \<Longrightarrow> (\<forall>n. f \<noteq> News n) \<Longrightarrow> hd_inv (safeEnqueue env f st)"
  by (cases f) (simp_all add: hd_inv_def safeEnqueue_trace)

lemma hd_inv_replay:
  "distinct (existingHeadlines st @ map row_headline items) \<Longrightarrow> hd_inv st
     \<Longrightarrow> hd_inv (snd (replay env k items st))"
proof (induction items arbitrary: st k)
  case Nil
  then show ?case by simp
next
  case (Cons item items)
  let ?st1 = "st\<lparr>existingHeadlines := existingHeadlines st @ [row_headline item]\<rparr>"
  show ?case
  proof (cases "row_coordinates item")
    case (Inl m)
    then show ?thesis using Cons.prems by (auto simp: hd_inv_def)
  next
    case (Inr coords)
    let ?st2 = "safeEnqueue env (News (cachedNewsItem (replay_clock env k) item coords)) ?st1"
    have d: "distinct (existingHeadlines ?st2 @ map row_headline items)"
      using Cons.prems(1) by simp
    have "row_headline item \<notin> set (news_headlines (trace st))"
      using Cons.prems by (auto simp: hd_inv_def)
    then have i: "hd_inv ?st2"
      using Cons.prems(2) by (auto simp: hd_inv_def safeEnqueue_trace cachedNewsItem_def)
    from Cons.IH[OF d i, of "Suc k"] Inr show ?thesis by (simp add: Let_def)
  qed
qed

lemma hd_inv_replayCached:
  assumes "existingHeadlines st = []" "hd_inv st"
    "distinct (map row_headline (case cqo of None \<Rightarrow> [] | Some cq \<Rightarrow> q_items cq))"
  shows "hd_inv (snd (replayCached env nk cqo st))"
proof (cases cqo)
  case None
  then show ?thesis using assms by (simp add: replayCached_def)
next
  case (Some cq)
  let ?st = "safeEnqueue env (Status (FoundCached nk)) st"
  have "distinct (existingHeadlines ?st @ map row_headline (q_items cq))"
    using assms(1,3) Some by simp
  from hd_inv_replay[where k = 0, OF this hd_inv_status[OF assms(2)]] Some assms(2)
  show ?thesis by (simp add: replayCached_def)
qed

lemma hd_inv_fetchFresh:
  assumes "hd_inv st" "\<forall>a. \<forall>ce \<in> set (calls_of (grok (rounds env a))). saved env ce"
  shows "hd_inv (fetchFresh env rq nk sc cqo st)"
  unfolding fetchFresh_def Let_def
  by (rule discoverLoop_inv)
     (use assms in \<open>simp_all add: hd_inv_status hd_inv_candidate hd_inv_link\<close>)


text \<open>
  C3, as the code has it. In a run in which the cached events that are replayed carry
  pairwise distinct headlines and every fresh event is saved by \<open>newsItem.create\<close> (the
  payload of the call can be built, that is the timestamp of every post fetched for the
  event is missing or parses as a date, and the call resolves), the headlines carried by
  the news frames, replayed and fresh, over all rounds, are pairwise distinct under
  exact string equality.
\<close>

theorem headlines_distinct:
  assumes "distinct (map row_headline (cached_items env q))"
    and "\<forall>a. \<forall>ce \<in> set (calls_of (grok (rounds env a))). saved env ce"
  shows "distinct (news_headlines (trace (start env q)))"
proof -
  have "hd_inv (start env q)"
  proof (rule start_inv)
    show "hd_inv init_dstate" by (simp add: hd_inv_def init_dstate_def)
  next
    fix f st assume "hd_inv st" "\<forall>n. f \<noteq> News n"
    then show "hd_inv (safeEnqueue env f st)" by (rule hd_inv_enq)
  next
    fix st assume "hd_inv st"
    then show "hd_inv (record_db [CacheLookup (cachedQueryOf env q)] st)"
      by (simp add: hd_inv_db)
  next
    fix st nk assume "hd_inv st" "existingHeadlines st = []"
    then show "hd_inv (snd (replayCached env nk (cachedQueryOf env q) st))"
      using assms(1) by (intro hd_inv_replayCached) (simp_all add: cached_items_def)
  next
    fix st nk sc assume "hd_inv st"
    then show "hd_inv (fetchFresh env q nk sc (cachedQueryOf env q) st)"
      using assms(2) by (rule hd_inv_fetchFresh)
  qed
  then show ?thesis by (simp add: hd_inv_def)
qed

theorem headlines_distinct_witness:
  "news_headlines (trace (start
      ((mk_env (Some cache_table)
         [mk_cand ''Quake'' ''Tokyo'' NoTimestamp ''u1'' 1000000000 (Some [139, 35]) True FindNone,
          mk_cand ''Quake'' ''Osaka'' NoTimestamp ''u2'' 1000000001 (Some [135, 34]) True FindNone,
          dated_cand ''Delft'' ''u3'',
          dated_cand ''Utrecht'' ''u4'',
          mk_cand ''New story'' ''Oslo'' NoTimestamp ''u5'' 1000000002 (Some [10, 59]) True FindNone])
         \<lparr>X_BEARER_TOKEN := Some ''token''\<rparr>) []))
     = [''New story'', ''Quake'', ''Storm'']
   \<and> distinct (news_headlines (trace (start
      ((mk_env (Some cache_table)
         [mk_cand ''Quake'' ''Tokyo'' NoTimestamp ''u1'' 1000000000 (Some [139, 35]) True FindNone,
          mk_cand ''Quake'' ''Osaka'' NoTimestamp ''u2'' 1000000001 (Some [135, 34]) True FindNone,
          dated_cand ''Delft'' ''u3'',
          dated_cand ''Utrecht'' ''u4'',
          mk_cand ''New story'' ''Oslo'' NoTimestamp ''u5'' 1000000002 (Some [10, 59]) True FindNone])
         \<lparr>X_BEARER_TOKEN := Some ''token''\<rparr>) [])))"
proof -
  let ?calls = "[mk_cand ''Quake'' ''Tokyo'' NoTimestamp ''u1'' 1000000000 (Some [139, 35]) True FindNone,
          mk_cand ''Quake'' ''Osaka'' NoTimestamp ''u2'' 1000000001 (Some [135, 34]) True FindNone,
          dated_cand ''Delft'' ''u3'',
          dated_cand ''Utrecht'' ''u4'',
          mk_cand ''New story'' ''Oslo'' NoTimestamp ''u5'' 1000000002 (Some [10, 59]) True FindNone]"
  let ?env = "(mk_env (Some cache_table) ?calls)\<lparr>X_BEARER_TOKEN := Some ''token''\<rparr>"
  have h1: "distinct (map row_headline (cached_items ?env []))" by code_simp
  have s: "list_all (saved ?env) ?calls" by code_simp
  have "saved ?env ce" if "ce \<in> set (calls_of (grok (rounds ?env a)))" for a ce
  proof (cases "a = 0")
    case True
    with that have "ce \<in> set ?calls" by (simp add: mk_env_def calls_of_def)
    with s show ?thesis unfolding list_all_iff by blast
  next
    case False
    with that show ?thesis by (simp add: mk_env_def calls_of_def last_round_def)
  qed
  then have h2: "\<forall>a. \<forall>ce \<in> set (calls_of (grok (rounds ?env a))). saved ?env ce" by blast
  have v: "news_headlines (trace (start ?env [])) = [''New story'', ''Quake'', ''Storm'']" by code_simp
  show ?thesis
  proof (intro conjI)
    show "news_headlines (trace (start ?env [])) = [''New story'', ''Quake'', ''Storm'']" by (rule v)
    show "distinct (news_headlines (trace (start ?env [])))" by (rule headlines_distinct[OF h1 h2])
  qed
qed

text \<open>
  C3 as it is written fails in three ways. The replay emits every cached row, so two
  rows with the same headline linked to the fresh record give two frames with that
  headline. A headline is added to the known list only when \<open>newsItem.create\<close>
  resolves: after a create that rejects, a later candidate with the same headline is
  emitted again. And when the payload of the call cannot be built, because a post
  fetched for the event has a timestamp that does not parse, the call is not made and
  the headline is not added either.
\<close>

theorem headlines_repeated_counterexample:
  "news_headlines (trace (start (mk_env (Some dup_table) []) [])) = [''New story'', ''New story'']
   \<and> news_headlines (trace (start
        (mk_env (Some [])
           [mk_cand ''Quake'' ''Tokyo'' NoTimestamp ''u1'' 1000000000 (Some [139, 35]) False (FindSome ''i0''),
            mk_cand ''Quake'' ''Osaka'' NoTimestamp ''u2'' 1000000001 (Some [135, 34]) True FindNone]) []))
       = [''Quake'', ''Quake'']
   \<and> news_headlines (trace (start
        (storm_env [storm_cand ''Delft'' ''u1'', storm_cand ''Utrecht'' ''u2'']) []))
       = [''Storm'', ''Storm'']"
  by code_simp

subsection \<open>The timestamp of a fresh event\<close>

lemma items_of_append [simp]: "items_of (xs @ ys) = items_of xs \<union> items_of ys"
  by (auto simp: items_of_def)

lemma items_of_simps [simp]:
  "items_of [] = {}"
  "items_of (Enqueue (News n) # as) = insert n (items_of as)"
  "items_of (DbCreate n ok # as) = insert n (items_of as)"
  "items_of (Enqueue (Status m) # as) = items_of as"
  "items_of (Enqueue Connected # as) = items_of as"
  "items_of (Enqueue Complete # as) = items_of as"
  "items_of (Enqueue (ErrorFrame e) # as) = items_of as"
  "items_of (CacheLookup r # as) = items_of as"
  "items_of (DbFindFirst h l fr # as) = items_of as"
  "items_of (QueryFindFirst k fr # as) = items_of as"
  "items_of (QueryUpdate i ids b okk # as) = items_of as"
  "items_of (QueryCreate oq k ids okk # as) = items_of as"
  by (auto simp: items_of_def)

lemma ts_inv_upd [simp]:
  "ts_inv env C (st\<lparr>existingHeadlines := hs\<rparr>) = ts_inv env C st"
  "ts_inv env C (st\<lparr>fetchedCount := k\<rparr>) = ts_inv env C st"
  by (simp_all add: ts_inv_def)

lemma ts_inv_enq:
  "ts_inv env C st \<Longrightarrow> (\<forall>n. f \<noteq> News n) \<Longrightarrow> ts_inv env C (safeEnqueue env f st)"
  by (cases f) (simp_all add: ts_inv_def safeEnqueue_trace)

lemma ts_inv_db:
  "ts_inv env C st \<Longrightarrow> items_of as = {} \<Longrightarrow> ts_inv env C (record_db as st)"
  by (simp add: ts_inv_def)

lemma ts_inv_link: "ts_inv env C st \<Longrightarrow> ts_inv env C (linkItems renv cq rq nk ids st)"
  by (simp add: linkItems_def ts_inv_db split: option.splits find_result.splits)

lemma ts_inv_persist:
  assumes "ts_inv env C st" "ce \<in> set (calls_of (grok (rounds env a)))" "from_cand env ce n"
  shows "ts_inv env C (fst (persist ce n (safeEnqueue env (News n) st, ids)))"
  using assms
  by (auto simp: persist_def ts_inv_def safeEnqueue_trace Let_def split: find_result.splits)

lemma ts_inv_candidate:
  assumes "ts_inv env C (fst acc)" "ce \<in> set (calls_of (grok (rounds env a)))"
    "sda = now_seven env - 7 * 24 * 60 * 60 * 1000"
  shows "ts_inv env C (fst (processCandidate env sda ce acc))"
proof (cases acc)
  case (Pair st ids)
  show ?thesis
  proof (cases "parsed ce")
    case None
    then show ?thesis using assms Pair by (simp add: processCandidate_def)
  next
    case (Some args)
    have fc: "from_cand env ce (newsItemOf ce args coords ts)"
      if "\<not> tooOld (c_timestamp args) sda" for coords ts
      using Some that assms(3) by (simp add: from_cand_def newsItemOf_def)
    have step: "ts_inv env C (fst (persist ce (newsItemOf ce args coords ts)
                  (safeEnqueue env (News (newsItemOf ce args coords ts)) s, ids')))"
      if "\<not> tooOld (c_timestamp args) sda" "ts_inv env C s" for coords ts s ids'
      by (rule ts_inv_persist[OF that(2) assms(2) fc[OF that(1)]])
    show ?thesis
      using assms(1) Pair Some
      by (auto simp: processCandidate_def Let_def ts_inv_enq step
               split: option.splits sum.splits)
  qed
qed

lemma ts_inv_replay:
  "ts_inv env C st \<Longrightarrow> set (replayed env k items) \<subseteq> set C
     \<Longrightarrow> ts_inv env C (snd (replay env k items st))"
proof (induction items arbitrary: st k)
  case Nil
  then show ?case by simp
next
  case (Cons item items)
  show ?case
  proof (cases "row_coordinates item")
    case (Inl m)
    then show ?thesis using Cons.prems by simp
  next
    case (Inr coords)
    let ?st2 = "safeEnqueue env (News (cachedNewsItem (replay_clock env k) item coords))
                  (st\<lparr>existingHeadlines := existingHeadlines st @ [row_headline item]\<rparr>)"
    have "ts_inv env C ?st2"
      using Cons.prems Inr by (auto simp: ts_inv_def safeEnqueue_trace replayed_Cons)
    moreover have "set (replayed env (Suc k) items) \<subseteq> set C"
      using Cons.prems(2) by (simp add: replayed_Cons)
    ultimately show ?thesis using Cons.IH[of ?st2 "Suc k"] Inr by (simp add: Let_def)
  qed
qed

lemma ts_inv_start: "ts_inv env (cached_news env q) (start env q)"
proof (rule start_inv)
  let ?C = "cached_news env q"
  show "ts_inv env ?C init_dstate" by (simp add: ts_inv_def init_dstate_def)
  fix st :: dstate
  {
    fix f assume "ts_inv env ?C st" "\<forall>n. f \<noteq> News n"
    then show "ts_inv env ?C (safeEnqueue env f st)" by (rule ts_inv_enq)
  next
    assume "ts_inv env ?C st"
    then show "ts_inv env ?C (record_db [CacheLookup (cachedQueryOf env q)] st)"
      by (simp add: ts_inv_db)
  next
    fix nk assume a: "ts_inv env ?C st"
    show "ts_inv env ?C (snd (replayCached env nk (cachedQueryOf env q) st))"
    proof (cases "cachedQueryOf env q")
      case None
      then show ?thesis using a by (simp add: replayCached_def)
    next
      case (Some cq)
      then have "set (replayed env 0 (q_items cq)) \<subseteq> set ?C"
        by (simp add: cached_news_def cached_items_def)
      moreover have "ts_inv env ?C (safeEnqueue env (Status (FoundCached nk)) st)"
        using a by (simp add: ts_inv_enq)
      ultimately have "ts_inv env ?C (snd (replay env 0 (q_items cq)
                          (safeEnqueue env (Status (FoundCached nk)) st)))"
        by (intro ts_inv_replay)
      with a Some show ?thesis by (simp add: replayCached_def)
    qed
  next
    fix nk sc assume a: "ts_inv env ?C st"
    show "ts_inv env ?C (fetchFresh env q nk sc (cachedQueryOf env q) st)"
      unfolding fetchFresh_def Let_def
      by (rule discoverLoop_inv)
         (use a in \<open>simp_all add: ts_inv_enq ts_inv_candidate ts_inv_link\<close>)
  }
qed

lemma tooOld_iff: "tooOld ts sda \<longleftrightarrow> (\<exists>t. ts = DateAt t \<and> t < sda)"
  by (cases ts) (simp_all add: tooOld_def)

lemma processCandidate_skips_old:
  "parsed ce = Some args \<Longrightarrow> tooOld (c_timestamp args) sda \<Longrightarrow> processCandidate env sda ce acc = acc"
  by (cases acc) (simp add: processCandidate_def Let_def)

lemma persist_parsed [simp]: "persist (ce\<lparr>parsed := p\<rparr>) n acc = persist ce n acc"
  by (cases acc) (simp add: persist_def Let_def split: find_result.splits)

lemma newsItemOf_declared [simp]:
  "newsItemOf (ce\<lparr>parsed := p\<rparr>) (args\<lparr>c_timestamp := t\<rparr>) coords ts = newsItemOf ce args coords ts"
  by (simp add: newsItemOf_def)

lemma processCandidate_declared_timestamp:
  assumes "parsed ce = Some args" "\<not> tooOld (c_timestamp args) sda" "\<not> tooOld ts' sda"
  shows "processCandidate env sda (ce\<lparr>parsed := Some (args\<lparr>c_timestamp := ts'\<rparr>)\<rparr>) acc
           = processCandidate env sda ce acc"
proof (cases acc)
  case (Pair st ids)
  show ?thesis
  proof (cases "geocoded ce")
    case None
    then show ?thesis using assms Pair by (simp add: processCandidate_def Let_def)
  next
    case (Some coords)
    then show ?thesis using assms Pair by (simp add: processCandidate_def Let_def)
  qed
qed


text \<open>
  C9, as the code has it. Every news item that a run emits or hands to
  \<open>newsItem.create\<close> is either a replayed cached row or was built while processing one
  of the tool calls, and then its timestamp is the clock reading (\<open>new Date()\<close>) taken
  when the item was built, whatever timestamp the candidate declares. The declared
  timestamp is used only to skip candidates older than seven days: a candidate is too
  old exactly when it declares a date before the seven-day bound; a candidate that is
  too old is skipped, leaving the state and the list of created ids as they are; an item
  of a run comes from a candidate that is not too old; and for a candidate that is not
  too old, declaring another timestamp that is not too old changes nothing in what the
  processing of the candidate does.
\<close>

theorem news_timestamp_is_processing_time:
  "((Enqueue (News n) \<in> set (trace (start env q)) \<or> DbCreate n ok \<in> set (trace (start env q)))
      \<longrightarrow> n \<in> set (cached_news env q)
          \<or> (\<exists>a. \<exists>ce \<in> set (calls_of (grok (rounds env a))). \<exists>args.
                parsed ce = Some args \<and> headline n = str_or (c_headline args) []
                \<and> ni_id n = uuid ce \<and> ni_timestamp n = now ce
                \<and> \<not> tooOld (c_timestamp args) (now_seven env - 7 * 24 * 60 * 60 * 1000)))
   \<and> (tooOld ts sda \<longleftrightarrow> (\<exists>t. ts = DateAt t \<and> t < sda))
   \<and> (parsed ce1 = Some args1 \<and> tooOld (c_timestamp args1) sda1
        \<longrightarrow> processCandidate env1 sda1 ce1 acc1 = acc1)
   \<and> (parsed ce2 = Some args2 \<and> \<not> tooOld (c_timestamp args2) sda2 \<and> \<not> tooOld ts2 sda2
        \<longrightarrow> processCandidate env2 sda2 (ce2\<lparr>parsed := Some (args2\<lparr>c_timestamp := ts2\<rparr>)\<rparr>) acc2
              = processCandidate env2 sda2 ce2 acc2)"
proof (intro conjI impI)
  assume "Enqueue (News n) \<in> set (trace (start env q)) \<or> DbCreate n ok \<in> set (trace (start env q))"
  then have "n \<in> items_of (trace (start env q))" by (auto simp: items_of_def)
  with ts_inv_start[of env q]
  show "n \<in> set (cached_news env q)
          \<or> (\<exists>a. \<exists>ce \<in> set (calls_of (grok (rounds env a))). \<exists>args.
                parsed ce = Some args \<and> headline n = str_or (c_headline args) []
                \<and> ni_id n = uuid ce \<and> ni_timestamp n = now ce
                \<and> \<not> tooOld (c_timestamp args) (now_seven env - 7 * 24 * 60 * 60 * 1000))"
    unfolding ts_inv_def from_cand_def by blast
next
  show "tooOld ts sda \<longleftrightarrow> (\<exists>t. ts = DateAt t \<and> t < sda)" by (rule tooOld_iff)
next
  assume "parsed ce1 = Some args1 \<and> tooOld (c_timestamp args1) sda1"
  then show "processCandidate env1 sda1 ce1 acc1 = acc1"
    by (simp add: processCandidate_skips_old)
next
  assume "parsed ce2 = Some args2 \<and> \<not> tooOld (c_timestamp args2) sda2 \<and> \<not> tooOld ts2 sda2"
  then show "processCandidate env2 sda2 (ce2\<lparr>parsed := Some (args2\<lparr>c_timestamp := ts2\<rparr>)\<rparr>) acc2
              = processCandidate env2 sda2 ce2 acc2"
    by (simp add: processCandidate_declared_timestamp)
qed

theorem news_timestamp_is_processing_time_witness:
  "(quake_item ''u1'' ''Tokyo''
     \<in> set (cached_news (mk_env (Some [])
               [mk_cand ''Quake'' ''Tokyo'' (DateAt 999990000) ''u1'' 1000000000 (Some [139, 35]) True FindNone]) [])
    \<or> (\<exists>a. \<exists>ce \<in> set (calls_of (grok (rounds (mk_env (Some [])
               [mk_cand ''Quake'' ''Tokyo'' (DateAt 999990000) ''u1'' 1000000000 (Some [139, 35]) True FindNone]) a))).
         \<exists>args. parsed ce = Some args \<and> headline (quake_item ''u1'' ''Tokyo'') = str_or (c_headline args) []
           \<and> ni_id (quake_item ''u1'' ''Tokyo'') = uuid ce
           \<and> ni_timestamp (quake_item ''u1'' ''Tokyo'') = now ce
           \<and> \<not> tooOld (c_timestamp args)
                 (now_seven (mk_env (Some [])
                    [mk_cand ''Quake'' ''Tokyo'' (DateAt 999990000) ''u1'' 1000000000 (Some [139, 35]) True FindNone])
                  - 7 * 24 * 60 * 60 * 1000)))
   \<and> tooOld (DateAt 300000000) 395200000
   \<and> processCandidate (mk_env (Some []) []) 395200000
         (mk_cand ''Quake'' ''Tokyo'' (DateAt 300000000) ''u1'' 1000000000 (Some [139, 35]) True FindNone)
         (init_dstate, [])
       = (init_dstate, [])
   \<and> processCandidate (mk_env (Some []) []) 395200000
         ((mk_cand ''Quake'' ''Tokyo'' (DateAt 999990000) ''u1'' 1000000000 (Some [139, 35]) True FindNone)
            \<lparr>parsed := Some ((the (parsed (mk_cand ''Quake'' ''Tokyo'' (DateAt 999990000) ''u1'' 1000000000
                                          (Some [139, 35]) True FindNone)))
                              \<lparr>c_timestamp := InvalidDate\<rparr>)\<rparr>)
         (init_dstate, [])
       = processCandidate (mk_env (Some []) []) 395200000
           (mk_cand ''Quake'' ''Tokyo'' (DateAt 999990000) ''u1'' 1000000000 (Some [139, 35]) True FindNone)
           (init_dstate, [])"
proof -
  let ?new = "mk_cand ''Quake'' ''Tokyo'' (DateAt 999990000) ''u1'' 1000000000 (Some [139, 35]) True FindNone"
  let ?old = "mk_cand ''Quake'' ''Tokyo'' (DateAt 300000000) ''u1'' 1000000000 (Some [139, 35]) True FindNone"
  let ?env = "mk_env (Some []) [?new]"
  let ?none = "mk_env (Some []) []"
  note T = news_timestamp_is_processing_time
             [of "quake_item ''u1'' ''Tokyo''" ?env "[]" True "DateAt 300000000" 395200000
                 ?old "the (parsed ?old)" 395200000 ?none "(init_dstate, [])"
                 ?new "the (parsed ?new)" 395200000 InvalidDate ?none "(init_dstate, [])"]
  have m: "Enqueue (News (quake_item ''u1'' ''Tokyo'')) \<in> set (trace (start ?env []))" by code_simp
  have o: "parsed ?old = Some (the (parsed ?old)) \<and> tooOld (c_timestamp (the (parsed ?old))) 395200000"
    by code_simp
  have k: "parsed ?new = Some (the (parsed ?new)) \<and> \<not> tooOld (c_timestamp (the (parsed ?new))) 395200000
           \<and> \<not> tooOld InvalidDate 395200000"
    by code_simp
  have d: "\<exists>t. DateAt 300000000 = DateAt t \<and> t < (395200000::int)" by simp
  show ?thesis
  proof (intro conjI)
    from m T show "quake_item ''u1'' ''Tokyo'' \<in> set (cached_news ?env [])
      \<or> (\<exists>a. \<exists>ce \<in> set (calls_of (grok (rounds ?env a))).
         \<exists>args. parsed ce = Some args \<and> headline (quake_item ''u1'' ''Tokyo'') = str_or (c_headline args) []
           \<and> ni_id (quake_item ''u1'' ''Tokyo'') = uuid ce
           \<and> ni_timestamp (quake_item ''u1'' ''Tokyo'') = now ce
           \<and> \<not> tooOld (c_timestamp args) (now_seven ?env - 7 * 24 * 60 * 60 * 1000))"
      by blast
    from d T show "tooOld (DateAt 300000000) 395200000" by blast
    from o T show "processCandidate ?none 395200000 ?old (init_dstate, []) = (init_dstate, [])"
      by blast
    from k T show "processCandidate ?none 395200000
         (?new\<lparr>parsed := Some ((the (parsed ?new))\<lparr>c_timestamp := InvalidDate\<rparr>)\<rparr>) (init_dstate, [])
       = processCandidate ?none 395200000 ?new (init_dstate, [])"
      by blast
  qed
qed

text \<open>
  C9 as it is written fails: a candidate that declares the event time 999990000 and is
  processed at 1000000000 is emitted and persisted with the timestamp 1000000000.
\<close>

theorem declared_timestamp_counterexample:
  "trace (start (mk_env (Some [])
             [mk_cand ''Quake'' ''Tokyo'' (DateAt 999990000) ''u1'' 1000000000 (Some [139, 35]) True FindNone]) [])
     = [Enqueue Connected, Enqueue (Status Analyzing), CacheLookup None,
        Enqueue (Status (Scanning ''global'' 40 20)), Enqueue (Status (Found ''Quake'')),
        Enqueue (News (quake_item ''u1'' ''Tokyo'')), DbCreate (quake_item ''u1'' ''Tokyo'') True,
        QueryFindFirst ''Global News'' FindNone, QueryCreate ''Global News'' ''Global News'' [''u1''] True,
        Enqueue (Status (ScanningMore 1 20)), Enqueue Complete]
   \<and> ni_timestamp (quake_item ''u1'' ''Tokyo'') = 1000000000
   \<and> c_timestamp (the (parsed (mk_cand ''Quake'' ''Tokyo'' (DateAt 999990000) ''u1'' 1000000000 (Some [139, 35]) True FindNone)))
       = DateAt 999990000"
  by code_simp


subsection \<open>The social evidence fetcher\<close>

lemma tryVariant_no_valid_post:
  "no_valid_post r \<Longrightarrow> tryVariant r \<noteq> Inr (Return ts)"
  by (cases r) (auto simp: tryVariant_def no_valid_post_def Let_def)

lemma variantsLoop_total: "\<exists>ts. variantsLoop api i qs = Inr ts"
  by (induction qs arbitrary: i) (auto split: sum.splits variant_result.splits)

lemma variantsLoop_all_fail:
  assumes "\<forall>j s. no_valid_post (api j s)"
  shows "variantsLoop api i qs = Inr []"
proof (induction qs arbitrary: i)
  case Nil
  then show ?case by simp
next
  case (Cons q qs)
  have "tryVariant (api i (cleanQuery q)) \<noteq> Inr (Return ts)" for ts
    using assms by (simp add: tryVariant_no_valid_post)
  then show ?case using Cons.IH
    by (auto split: sum.splits variant_result.splits)
qed

lemma fetchRealTweets_total: "\<exists>ts. fetchRealTweets xt bt api query hl = Inr ts"
  using variantsLoop_total by (auto simp: fetchRealTweets_def Let_def)

lemma fetchRealTweets_no_token:
  "str_or xt [] = [] \<Longrightarrow> str_or bt [] = [] \<Longrightarrow> fetchRealTweets xt bt api query hl = Inr []"
  by (auto simp: fetchRealTweets_def str_or_def Let_def split: option.splits if_splits)

lemma fetchRealTweets_all_fail:
  "\<forall>j s. no_valid_post (api j s) \<Longrightarrow> fetchRealTweets xt bt api query hl = Inr []"
  by (simp add: fetchRealTweets_def Let_def variantsLoop_all_fail)

lemma candidate_without_posts:
  assumes "parsed ce = Some args"
    and "str_or (c_headline args) [] = h" "h \<noteq> []"
    and "str_or (c_location args) [] = l" "l \<noteq> []"
    and "h \<notin> set (existingHeadlines st)" "\<not> tooOld (c_timestamp args) sda"
    and "geocoded ce = Some coords"
    and "str_or (c_search_query args) [] = sq"
    and "sq = [] \<or> fetchRealTweets (X_BEARER_TOKEN env) (BEARER_TOKEN env) (x_api ce) sq (Some h) = Inr []"
    and "abort_after env = None"
  shows "trace (fst (processCandidate env sda ce (st, ids)))
           = trace st
             @ [Enqueue (Status (Found h))]
             @ (if sq = [] then [] else [Enqueue (Status (FetchingTweets sq)), Enqueue (Status (NoTweets h))])
             @ [Enqueue (News (newsItemOf ce args coords [])), DbCreate (newsItemOf ce args coords []) (create_ok ce)]
             @ (if create_ok ce then [] else [DbFindFirst h l (find_existing ce)])"
    and "create_ok ce \<Longrightarrow>
           snd (processCandidate env sda ce (st, ids)) = ids @ [uuid ce]
           \<and> fetchedCount (fst (processCandidate env sda ce (st, ids))) = fetchedCount st + 1"
  using assms
  by (auto simp: processCandidate_def persist_def payloadThrows_def Let_def safeEnqueue_trace
                 newsItemOf_def
           split: find_result.splits)

text \<open>
  C8. \<open>fetchRealTweets\<close> returns a list for every input and never throws. Without a
  bearer token it returns the empty list; so it does when every query variation gets
  an answer without a valid post (network error, non-OK status, malformed body, no
  data, no English post longer than ten characters). A candidate that passes the
  checks and is geocoded, and for which no posts were fetched (no search hint, or the
  fetcher returned the empty list), is still emitted as a news frame with an empty post
  list and handed to \<open>newsItem.create\<close> with an empty post list; when that call
  succeeds the event is counted and its id is linked. (Stated for a client that stays
  connected.)
\<close>

theorem social_fetch_never_throws:
  "(\<exists>ts. fetchRealTweets xt bt api query hl = Inr ts)
   \<and> (str_or xt [] = [] \<and> str_or bt [] = [] \<longrightarrow> fetchRealTweets xt bt api query hl = Inr [])
   \<and> ((\<forall>j s. no_valid_post (api j s)) \<longrightarrow> fetchRealTweets xt bt api query hl = Inr [])
   \<and> (parsed ce = Some args
        \<and> str_or (c_headline args) [] = h \<and> h \<noteq> []
        \<and> str_or (c_location args) [] = l \<and> l \<noteq> []
        \<and> h \<notin> set (existingHeadlines st) \<and> \<not> tooOld (c_timestamp args) sda
        \<and> geocoded ce = Some coords
        \<and> str_or (c_search_query args) [] = sq
        \<and> (sq = [] \<or> fetchRealTweets (X_BEARER_TOKEN env) (BEARER_TOKEN env) (x_api ce) sq (Some h) = Inr [])
        \<and> abort_after env = None
      \<longrightarrow> trace (fst (processCandidate env sda ce (st, ids)))
             = trace st
               @ [Enqueue (Status (Found h))]
               @ (if sq = [] then [] else [Enqueue (Status (FetchingTweets sq)), Enqueue (Status (NoTweets h))])
               @ [Enqueue (News (newsItemOf ce args coords [])), DbCreate (newsItemOf ce args coords []) (create_ok ce)]
               @ (if create_ok ce then [] else [DbFindFirst h l (find_existing ce)])
          \<and> top_tweets (newsItemOf ce args coords []) = []
          \<and> (create_ok ce \<longrightarrow>
                 snd (processCandidate env sda ce (st, ids)) = ids @ [uuid ce]
                 \<and> fetchedCount (fst (processCandidate env sda ce (st, ids))) = fetchedCount st + 1))"
proof (intro conjI impI)
  show "\<exists>ts. fetchRealTweets xt bt api query hl = Inr ts" by (rule fetchRealTweets_total)
next
  assume "str_or xt [] = [] \<and> str_or bt [] = []"
  then show "fetchRealTweets xt bt api query hl = Inr []" by (simp add: fetchRealTweets_no_token)
next
  assume "\<forall>j s. no_valid_post (api j s)"
  then show "fetchRealTweets xt bt api query hl = Inr []" by (rule fetchRealTweets_all_fail)
next
  assume a: "parsed ce = Some args
        \<and> str_or (c_headline args) [] = h \<and> h \<noteq> []
        \<and> str_or (c_location args) [] = l \<and> l \<noteq> []
        \<and> h \<notin> set (existingHeadlines st) \<and> \<not> tooOld (c_timestamp args) sda
        \<and> geocoded ce = Some coords
        \<and> str_or (c_search_query args) [] = sq
        \<and> (sq = [] \<or> fetchRealTweets (X_BEARER_TOKEN env) (BEARER_TOKEN env) (x_api ce) sq (Some h) = Inr [])
        \<and> abort_after env = None"
  then show "trace (fst (processCandidate env sda ce (st, ids)))
             = trace st
               @ [Enqueue (Status (Found h))]
               @ (if sq = [] then [] else [Enqueue (Status (FetchingTweets sq)), Enqueue (Status (NoTweets h))])
               @ [Enqueue (News (newsItemOf ce args coords [])), DbCreate (newsItemOf ce args coords []) (create_ok ce)]
               @ (if create_ok ce then [] else [DbFindFirst h l (find_existing ce)])"
    by (intro candidate_without_posts(1)) simp_all
  show "top_tweets (newsItemOf ce args coords []) = []" by (simp add: newsItemOf_def)
  assume "create_ok ce"
  with a show "snd (processCandidate env sda ce (st, ids)) = ids @ [uuid ce]"
    and "fetchedCount (fst (processCandidate env sda ce (st, ids))) = fetchedCount st + 1"
    using candidate_without_posts(2)[of ce args h l st sda coords sq env ids] by simp_all
qed

theorem social_fetch_never_throws_witness:
  "fetchRealTweets None None (\<lambda>i q. XFetchThrows) ''Quake Tokyo'' (Some ''Quake'') = Inr []
   \<and> trace (fst (processCandidate (mk_env (Some []) [hint_cand]) 395200000 hint_cand (init_dstate, [])))
       = [Enqueue (Status (Found ''Quake'')),
          Enqueue (Status (FetchingTweets ''Quake Tokyo'')), Enqueue (Status (NoTweets ''Quake'')),
          Enqueue (News (quake_item ''u1'' ''Tokyo'')), DbCreate (quake_item ''u1'' ''Tokyo'') True]
   \<and> snd (processCandidate (mk_env (Some []) [hint_cand]) 395200000 hint_cand (init_dstate, [])) = [''u1'']"
proof -
  let ?env = "mk_env (Some []) [hint_cand]"
  let ?args = "\<lparr>c_headline = Some ''Quake'', c_location = Some ''Tokyo'', c_summary = Some ''summary'',
                c_category = None, c_timestamp = NoTimestamp, c_search_query = Some ''Quake Tokyo''\<rparr>"
  have nv: "\<forall>j s. no_valid_post ((\<lambda>i q. XFetchThrows) j s)" by (simp add: no_valid_post_def)
  have tok: "str_or None [] = [] \<and> str_or None [] = []" by (simp add: str_or_def)
  have f: "fetchRealTweets (X_BEARER_TOKEN ?env) (BEARER_TOKEN ?env) (x_api hint_cand) ''Quake Tokyo'' (Some ''Quake'') = Inr []"
    by (simp add: fetchRealTweets_def mk_env_def)
  have hyp: "parsed hint_cand = Some ?args
        \<and> str_or (c_headline ?args) [] = ''Quake'' \<and> ''Quake'' \<noteq> []
        \<and> str_or (c_location ?args) [] = ''Tokyo'' \<and> ''Tokyo'' \<noteq> []
        \<and> ''Quake'' \<notin> set (existingHeadlines init_dstate) \<and> \<not> tooOld (c_timestamp ?args) 395200000
        \<and> geocoded hint_cand = Some [139, 35]
        \<and> str_or (c_search_query ?args) [] = ''Quake Tokyo''
        \<and> (''Quake Tokyo'' = [] \<or> fetchRealTweets (X_BEARER_TOKEN ?env) (BEARER_TOKEN ?env) (x_api hint_cand) ''Quake Tokyo'' (Some ''Quake'') = Inr [])
        \<and> abort_after ?env = None"
    using f by (simp add: hint_cand_def str_or_def init_dstate_def tooOld_def mk_env_def)
  have ok: "create_ok hint_cand" by (simp add: hint_cand_def)
  have n: "newsItemOf hint_cand ?args [139, 35] [] = quake_item ''u1'' ''Tokyo''"
    by (simp add: newsItemOf_def quake_item_def hint_cand_def str_or_def)
  from social_fetch_never_throws[of None None "\<lambda>i q. XFetchThrows" "''Quake Tokyo''" "Some ''Quake''"
        hint_cand ?args "''Quake''" "''Tokyo''" init_dstate 395200000 "[139, 35]" "''Quake Tokyo''" ?env "[]"]
    nv tok hyp ok n
  show ?thesis by (simp add: init_dstate_def hint_cand_def)
qed


subsection \<open>The test of the discovery loop\<close>

lemma extends_upd [simp]:
  "extends pre (st\<lparr>existingHeadlines := hs\<rparr>) = extends pre st"
  "extends pre (st\<lparr>fetchedCount := k\<rparr>) = extends pre st"
  by (simp_all add: extends_def)

lemma extends_enq: "extends pre st \<Longrightarrow> extends pre (safeEnqueue env f st)"
  by (auto simp: extends_def safeEnqueue_trace)

lemma extends_db: "extends pre st \<Longrightarrow> extends pre (record_db as st)"
  by (auto simp: extends_def)

lemma extends_link: "extends pre st \<Longrightarrow> extends pre (linkItems renv cq rq nk ids st)"
  by (simp add: linkItems_def extends_db split: option.splits find_result.splits)

lemma extends_persist: "extends pre (fst acc) \<Longrightarrow> extends pre (fst (persist ce n acc))"
  by (cases acc) (simp add: persist_def Let_def extends_db split: find_result.splits)

lemma extends_candidate:
  "extends pre (fst acc) \<Longrightarrow> extends pre (fst (processCandidate env sda ce acc))"
  by (cases acc)
     (auto simp: processCandidate_def Let_def extends_enq extends_persist
           split: option.splits sum.splits)

lemma extends_round:
  "extends pre st \<Longrightarrow> extends pre (round_state (doRound env sda cq rq nk fc a renv st))"
  by (rule doRound_inv) (simp_all add: extends_enq extends_candidate extends_link)

lemma extends_loop:
  "extends pre st \<Longrightarrow> extends pre (discoverLoop env sda cq rq nk fc a st)"
  by (rule discoverLoop_inv) (simp_all add: extends_enq extends_candidate extends_link)

lemma loop_stops:
  "\<not> loop_continues (fetchedCount st) fc a (elapsed (rounds env a))
     \<Longrightarrow> discoverLoop env sda cq rq nk fc a st = st"
  by (subst discoverLoop.simps) simp

lemma round_starts:
  assumes "abort_after env = None" "1 \<le> a"
  shows "extends (trace st @ [Enqueue (Status (ScanningMore (fetchedCount st) fc))])
           (round_state (doRound env sda cq rq nk fc (a + 1) renv st))"
proof -
  let ?pre = "trace st @ [Enqueue (Status (ScanningMore (fetchedCount st) fc))]"
  let ?st1 = "safeEnqueue env (Status (ScanningMore (fetchedCount st) fc)) st"
  have e1: "extends ?pre ?st1" using assms(1) by (simp add: extends_def safeEnqueue_trace)
  show ?thesis
  proof (cases "grok renv")
    case (ToolCalls calls)
    have "extends ?pre (fst (processCalls env sda calls (?st1, [])))"
      by (rule processCalls_inv) (simp_all add: e1 extends_candidate)
    then show ?thesis using ToolCalls assms(2)
      by (auto simp: doRound_def Let_def extends_link split: prod.splits)
  qed (use e1 assms(2) in \<open>simp_all add: doRound_def\<close>)
qed

lemma loop_continues_round:
  assumes "abort_after env = None" "1 \<le> a"
    and "loop_continues (fetchedCount st) fc a (elapsed (rounds env a))"
  shows "extends (trace st @ [Enqueue (Status (ScanningMore (fetchedCount st) fc))])
           (discoverLoop env sda cq rq nk fc a st)"
proof -
  let ?r = "doRound env sda cq rq nk fc (a + 1) (rounds env a) st"
  note rs = round_starts[OF assms(1,2), of st fc sda cq rq nk "rounds env a"]
  show ?thesis
  proof (cases ?r)
    case (NextRound st')
    with rs have "extends (trace st @ [Enqueue (Status (ScanningMore (fetchedCount st) fc))]) st'" by simp
    then show ?thesis using assms(3) NextRound
      by (subst discoverLoop.simps) (simp add: extends_loop)
  next
    case (BreakLoop st')
    with rs show ?thesis using assms(3) by (subst discoverLoop.simps) simp
  qed
qed

text \<open>
  C2, as the code has it. The loop goes on while
  \<open>fetchedCount < fetchCount\<close> and \<open>attempts < 10\<close> and \<open>elapsed < 90000\<close> ms, where
  \<open>fetchCount = min (max (targetCount - cachedCount) 5) 20\<close> and \<open>targetCount\<close> is 40 for
  the global scope, 20 for region and 5 for local: when the test fails the loop returns
  the state as it is, and when it holds (from the second round on, client connected)
  the next thing in the trace is the "Scanning for more" status of a new round. For a
  global-scope cache miss \<open>fetchCount\<close> is 20, so with 4 events fetched after round 1
  and less than 90 s elapsed a second round starts, because 4 < 20.
\<close>

theorem discovery_loop_condition:
  "(loop_continues fetched fc a el \<longleftrightarrow> fetched < fc \<and> a < 10 \<and> el < 90000)
   \<and> targetCount ''global'' = 40 \<and> targetCount ''region'' = 20 \<and> targetCount ''local'' = 5
   \<and> int (fetchCountOf target cached) = min (max (int target - int cached) 5) 20
   \<and> fetchCountOf (targetCount ''global'') 0 = 20
   \<and> (\<not> loop_continues (fetchedCount st0) fc0 a0 (elapsed (rounds env a0))
        \<longrightarrow> discoverLoop env sda cq rq nk fc0 a0 st0 = st0)
   \<and> (abort_after env = None \<and> 1 \<le> a \<and> loop_continues (fetchedCount st) fc a (elapsed (rounds env a))
        \<longrightarrow> (\<exists>rest. trace (discoverLoop env sda cq rq nk fc a st)
                      = trace st @ Enqueue (Status (ScanningMore (fetchedCount st) fc)) # rest))
   \<and> (el < 90000 \<longrightarrow> loop_continues 4 (fetchCountOf (targetCount ''global'') 0) 1 el)"
proof (intro conjI impI)
  show "loop_continues fetched fc a el \<longleftrightarrow> fetched < fc \<and> a < 10 \<and> el < 90000"
    by (simp add: loop_continues_def)
  show "targetCount ''global'' = 40" "targetCount ''region'' = 20" "targetCount ''local'' = 5"
    by (simp_all add: targetCount_def)
  show "int (fetchCountOf target cached) = min (max (int target - int cached) 5) 20"
    by (simp add: fetchCountOf_def Let_def max_def min_def)
  show g: "fetchCountOf (targetCount ''global'') 0 = 20"
    by (simp add: fetchCountOf_def targetCount_def Let_def)
  show "discoverLoop env sda cq rq nk fc0 a0 st0 = st0"
    if "\<not> loop_continues (fetchedCount st0) fc0 a0 (elapsed (rounds env a0))"
    using that by (rule loop_stops)
  show "\<exists>rest. trace (discoverLoop env sda cq rq nk fc a st)
                      = trace st @ Enqueue (Status (ScanningMore (fetchedCount st) fc)) # rest"
    if "abort_after env = None \<and> 1 \<le> a \<and> loop_continues (fetchedCount st) fc a (elapsed (rounds env a))"
    using loop_continues_round[of env a st fc sda cq rq nk] that by (simp add: extends_def)
  show "loop_continues 4 (fetchCountOf (targetCount ''global'') 0) 1 el" if "el < 90000"
    using that by (simp add: g loop_continues_def)
qed

theorem discovery_loop_condition_witness:
  "discoverLoop (mk_env (Some []) scenario_calls) 395200000 None [] ''Global News'' 20 1 (fetched_state 20)
     = fetched_state 20
   \<and> (\<exists>rest. trace (discoverLoop (mk_env (Some []) scenario_calls) 395200000 None [] ''Global News'' 20 1
                        (fetched_state 4))
              = Enqueue (Status (ScanningMore 4 20)) # rest)
   \<and> loop_continues 4 (fetchCountOf (targetCount ''global'') 0) 1 2000
   \<and> news_headlines (trace (start (mk_env (Some []) scenario_calls) [])) = [''A'', ''B'', ''D'', ''E'']
   \<and> filter is_scanning_more (frames (trace (start (mk_env (Some []) scenario_calls) [])))
       = [Status (ScanningMore 4 20)]"
proof -
  let ?env = "mk_env (Some []) scenario_calls"
  have e: "elapsed (rounds ?env 1) = 2000" "elapsed (rounds ?env (Suc 0)) = 2000" "abort_after ?env = None"
    by (simp_all add: mk_env_def last_round_def)
  have h1: "\<not> loop_continues (fetchedCount (fetched_state 20)) 20 1 (elapsed (rounds ?env 1))"
    by (simp add: loop_continues_def fetched_state_def)
  have h2: "abort_after ?env = None \<and> 1 \<le> (1::nat)
            \<and> loop_continues (fetchedCount (fetched_state 4)) 20 1 (elapsed (rounds ?env 1))"
    by (simp add: loop_continues_def fetched_state_def e)
  have h3: "(2000::int) < 90000" by simp
  have run: "news_headlines (trace (start ?env [])) = [''A'', ''B'', ''D'', ''E'']
     \<and> filter is_scanning_more (frames (trace (start ?env []))) = [Status (ScanningMore 4 20)]"
    by code_simp
  note T = discovery_loop_condition[of 4 20 1 2000 0 0 "fetched_state 20" 20 1 ?env 395200000 None "[]"
              "''Global News''" "fetched_state 4"]
  have c1: "discoverLoop ?env 395200000 None [] ''Global News'' 20 1 (fetched_state 20) = fetched_state 20"
    using T h1 by blast
  have "\<exists>rest. trace (discoverLoop ?env 395200000 None [] ''Global News'' 20 1 (fetched_state 4))
            = trace (fetched_state 4)
              @ Enqueue (Status (ScanningMore (fetchedCount (fetched_state 4)) 20)) # rest"
    using T h2 by blast
  then have c2: "\<exists>rest. trace (discoverLoop ?env 395200000 None [] ''Global News'' 20 1 (fetched_state 4))
            = Enqueue (Status (ScanningMore 4 20)) # rest"
    by (simp add: fetched_state_def)
  have c3: "loop_continues 4 (fetchCountOf (targetCount ''global'') 0) 1 2000"
    using T h3 by blast
  show ?thesis using c1 c2 c3 run by blast
qed

text \<open>
  C2 as it is written fails: the loop compares \<open>fetchedCount\<close> with \<open>fetchCount\<close>, which is
  capped at 20, not with \<open>targetCount\<close>. A global-scope cache-miss run whose first round
  persists 20 events ends there (no "Scanning for more" status, then \<open>complete\<close>),
  although 20 < 40, one attempt was made and 2 s have elapsed.
\<close>

theorem loop_target_counterexample:
  "run_summary (start (mk_env (Some []) twenty_calls) []) = (20, [], Complete)
   \<and> spec_loop_continues 20 ''global'' 1 (elapsed (rounds (mk_env (Some []) twenty_calls) 1))
   \<and> \<not> loop_continues 20 (fetchCountOf (targetCount ''global'') 0) 1
         (elapsed (rounds (mk_env (Some []) twenty_calls) 1))"
  by code_simp


end
